theory Spec2Isabelle
  imports Complex_Main
begin

section \<open>Angle values (class angleclass)\<close>

text \<open>
  The class stores one \<^verbatim>\<open>double value\<close>. A stored double is modelled by the real
  number it denotes, and the operations by exact arithmetic on reals. This is
  what the source computes wherever its double arithmetic is exact: in every
  comparison, in \<^verbatim>\<open>fmin\<close> and \<^verbatim>\<open>fmax\<close>, in copies, and when \<^verbatim>\<open>shiftinrange\<close>
  receives a scalar in \<open>[0, 2.0*M_PI)\<close> (the quotient is below 1, \<^verbatim>\<open>floor\<close> gives 0
  and the scalar comes back unchanged) or the scalar \<open>2.0*M_PI\<close> itself (the
  result is 0). Rounding, infinities and NaN are not represented; a statement
  that needs them kept out says so in its hypotheses.
\<close>

record angleclass =
  getval :: real

text \<open>
  The macro \<^verbatim>\<open>M_PI\<close> of \<^verbatim>\<open><cmath>\<close> is not part of the repository. Its value is
  the double nearest to \<open>\<pi>\<close>, \<^verbatim>\<open>0x1.921fb54442d18p+1\<close>, which is this rational
  number; \<open>2.0*M_PI\<close> is computed without rounding.
\<close>

definition M_PI :: real where
  "M_PI = 884279719003555 / 281474976710656"

definition shiftinrange :: "real \<Rightarrow> real" where
  "shiftinrange number = number - 2 * M_PI * of_int \<lfloor>number / (2 * M_PI)\<rfloor>"

text \<open>\<^verbatim>\<open>angleclass::angleclass(const double setme)\<close>, also the implicit conversion
  from a double wherever the source passes a double for an angle.\<close>

definition angle_of :: "real \<Rightarrow> angleclass" where
  "angle_of setme = \<lparr>getval = shiftinrange setme\<rparr>"

text \<open>\<^verbatim>\<open>angleclass::angleclass()\<close>: the value is set to zero without normalising.\<close>

definition angle_default :: angleclass where
  "angle_default = \<lparr>getval = 0\<rparr>"

definition angle_minus :: "angleclass \<Rightarrow> angleclass \<Rightarrow> angleclass" where
  "angle_minus a other = angle_of (getval a - getval other)"

definition angle_less :: "angleclass \<Rightarrow> angleclass \<Rightarrow> bool" where
  "angle_less a other = (getval a < getval other)"

definition angle_greater :: "angleclass \<Rightarrow> angleclass \<Rightarrow> bool" where
  "angle_greater a other = (getval a > getval other)"

definition angle_le :: "angleclass \<Rightarrow> angleclass \<Rightarrow> bool" where
  "angle_le a other = (getval a \<le> getval other)"

definition angle_ge :: "angleclass \<Rightarrow> angleclass \<Rightarrow> bool" where
  "angle_ge a other = (getval a \<ge> getval other)"

definition angle_eq :: "angleclass \<Rightarrow> angleclass \<Rightarrow> bool" where
  "angle_eq a other = (getval a = getval other)"

definition angle_neq :: "angleclass \<Rightarrow> angleclass \<Rightarrow> bool" where
  "angle_neq a other = (getval a \<noteq> getval other)"

text \<open>The range every stored scalar is meant to lie in.\<close>

definition valid_angle :: "angleclass \<Rightarrow> bool" where
  "valid_angle a = (0 \<le> getval a \<and> getval a < 2 * pi)"

text \<open>The scalars that \<^verbatim>\<open>shiftinrange\<close> returns unchanged: those below \<open>2.0*M_PI\<close>.\<close>

definition in_turn :: "angleclass \<Rightarrow> bool" where
  "in_turn a = (0 \<le> getval a \<and> getval a < 2 * M_PI)"

section \<open>Arcs (class anglerange)\<close>

text \<open>
  \<^verbatim>\<open>enum sorttype {SRT_LOWER, SRT_UPPER, SRT_SIZE}\<close> is kept as its underlying
  integer, so that a field holding none of the three enumerators (the
  \<^verbatim>\<open>default:\<close> branch of the comparison operators) can be written down.
\<close>

type_synonym sorttype = int

definition SRT_LOWER :: sorttype where "SRT_LOWER = 0"
definition SRT_UPPER :: sorttype where "SRT_UPPER = 1"
definition SRT_SIZE :: sorttype where "SRT_SIZE = 2"

record anglerange =
  lowerborder :: angleclass
  upperborder :: angleclass
  upperset :: bool
  lowerset :: bool
  fullcircle :: bool
  sortby :: sorttype

datatype error = Out_of_range

definition anglerange_default :: anglerange where
  "anglerange_default =
     \<lparr>lowerborder = angle_of 0, upperborder = angle_of 0,
      upperset = False, lowerset = False, fullcircle = False, sortby = SRT_SIZE\<rparr>"

definition anglerange_of :: "angleclass \<Rightarrow> angleclass \<Rightarrow> anglerange" where
  "anglerange_of lower upper =
     \<lparr>lowerborder = lower, upperborder = upper,
      upperset = True, lowerset = True, fullcircle = False, sortby = SRT_SIZE\<rparr>"

definition isempty :: "anglerange \<Rightarrow> bool" where
  "isempty r = (\<not> upperset r \<or> \<not> lowerset r)"

definition getupper :: "anglerange \<Rightarrow> angleclass" where
  "getupper r = upperborder r"

definition getlower :: "anglerange \<Rightarrow> angleclass" where
  "getlower r = lowerborder r"

definition setupper :: "anglerange \<Rightarrow> angleclass \<Rightarrow> anglerange" where
  "setupper r newupper = r\<lparr>upperborder := newupper, upperset := True\<rparr>"

definition setlower :: "anglerange \<Rightarrow> angleclass \<Rightarrow> anglerange" where
  "setlower r newlower = r\<lparr>lowerborder := newlower, lowerset := True\<rparr>"

definition setempty :: "anglerange \<Rightarrow> anglerange" where
  "setempty r = r\<lparr>upperset := False, lowerset := False, fullcircle := False\<rparr>"

definition setsorttype :: "anglerange \<Rightarrow> sorttype \<Rightarrow> anglerange" where
  "setsorttype r v = r\<lparr>sortby := v\<rparr>"

definition iscircle :: "anglerange \<Rightarrow> bool" where
  "iscircle r = (fullcircle r \<and> \<not> isempty r)"

definition setcircle :: "anglerange \<Rightarrow> bool \<Rightarrow> anglerange" where
  "setcircle r v =
     (if v
      then r\<lparr>lowerset := True, upperset := True,
             lowerborder := angle_of 0, upperborder := angle_of 0, fullcircle := v\<rparr>
      else r\<lparr>fullcircle := v\<rparr>)"

definition isinside :: "anglerange \<Rightarrow> angleclass \<Rightarrow> bool" where
  "isinside r v =
     (if isempty r then False
      else if fullcircle r then True
      else if angle_greater (lowerborder r) (upperborder r)
        then (angle_ge v (lowerborder r) \<or> angle_le v (upperborder r))
      else (angle_ge v (lowerborder r) \<and> angle_le v (upperborder r)))"

text \<open>\<^verbatim>\<open>anglerange::overlap\<close>. \<^verbatim>\<open>fmax\<close> and \<^verbatim>\<open>fmin\<close> return doubles, so the setter
  receives them through the converting constructor.\<close>

definition overlap :: "anglerange \<Rightarrow> anglerange \<Rightarrow> anglerange" where
  "overlap this other =
     (let retval = setsorttype anglerange_default (sortby this) in
      if \<not> isempty this \<and> \<not> isempty other then
        if fullcircle this then setsorttype other (sortby this)
        else if fullcircle other then this
        else if angle_greater (lowerborder this) (upperborder this) then
          if angle_greater (getlower other) (getupper other) then
            setupper
              (setlower retval
                 (angle_of (max (getval (lowerborder this)) (getval (getlower other)))))
              (angle_of (min (getval (upperborder this)) (getval (getupper other))))
          else
            if angle_le (getupper other) (upperborder this)
               \<or> angle_ge (getlower other) (lowerborder this)
            then setupper (setlower retval (getlower other)) (getupper other)
            else if angle_ge (getupper other) (lowerborder this)
            then setupper (setlower retval (lowerborder this)) (getupper other)
            else if angle_le (getlower other) (upperborder this)
            then setupper (setlower retval (getlower other)) (upperborder this)
            else retval
        else
          if angle_greater (getlower other) (getupper other) then
            if angle_le (upperborder this) (getupper other)
               \<or> angle_ge (lowerborder this) (getlower other)
            then setupper (setlower retval (lowerborder this)) (upperborder this)
            else if angle_le (lowerborder this) (getupper other)
            then setupper (setlower retval (lowerborder this)) (getupper other)
            else if angle_ge (upperborder this) (getlower other)
            then setupper (setlower retval (getlower other)) (upperborder this)
            else retval
          else
            (let curmax = min (getval (getupper other)) (getval (upperborder this));
                 curmin = max (getval (getlower other)) (getval (lowerborder this))
             in if curmax \<ge> curmin
                then setupper (setlower retval (angle_of curmin)) (angle_of curmax)
                else retval)
      else retval)"

text \<open>\<^verbatim>\<open>anglerange::combine\<close>. The test of \<^verbatim>\<open>fullcircle\<close> is a plain \<^verbatim>\<open>if\<close>, not
  chained to the next one: when the receiver is a full circle and the other arc
  is not, \<^verbatim>\<open>retval\<close> is the receiver and the ladder below still runs on it.\<close>

definition combine :: "anglerange \<Rightarrow> anglerange \<Rightarrow> anglerange" where
  "combine this other =
     (let retval0 = setsorttype anglerange_default (sortby this) in
      if \<not> isempty this \<and> \<not> isempty other then
        (let retval = (if fullcircle this then this else retval0) in
         if fullcircle other then setsorttype other (sortby this)
         else if angle_greater (lowerborder this) (upperborder this) then
           if angle_greater (getlower other) (getupper other) then
             if angle_le (lowerborder this) (upperborder other)
                \<or> angle_le (lowerborder other) (upperborder this)
             then setcircle retval True
             else
               setupper
                 (setlower retval
                    (angle_of (min (getval (lowerborder this)) (getval (getlower other)))))
                 (angle_of (max (getval (upperborder this)) (getval (getupper other))))
           else
             if angle_le (getupper other) (upperborder this)
                \<or> angle_ge (getlower other) (lowerborder this)
             then setupper (setlower retval (lowerborder this)) (upperborder this)
             else if angle_le (lowerborder other) (upperborder this)
                     \<and> angle_ge (upperborder other) (lowerborder this)
             then setcircle retval True
             else if angle_ge (getupper other) (lowerborder this)
             then setupper (setlower retval (getlower other)) (upperborder this)
             else if angle_le (getlower other) (upperborder this)
             then setupper (setlower retval (lowerborder this)) (getupper other)
             else retval
         else
           if angle_greater (getlower other) (getupper other) then
             if angle_le (upperborder this) (getupper other)
                \<or> angle_ge (lowerborder this) (getlower other)
             then setupper (setlower retval (getlower other)) (getupper other)
             else if angle_le (lowerborder this) (getupper other)
                     \<and> angle_ge (upperborder this) (getlower other)
             then setcircle retval True
             else if angle_le (lowerborder this) (getupper other)
             then setupper (setlower retval (getlower other)) (upperborder this)
             else if angle_ge (upperborder this) (getlower other)
             then setupper (setlower retval (lowerborder this)) (getupper other)
             else retval
           else
             (let curmax = min (getval (getupper other)) (getval (upperborder this));
                  curmin = max (getval (getlower other)) (getval (lowerborder this))
              in if curmax \<ge> curmin
                 then setupper
                        (setlower retval
                           (angle_of (min (getval (getlower other)) (getval (lowerborder this)))))
                        (angle_of (max (getval (getupper other)) (getval (upperborder this))))
                 else retval))
      else retval0)"

text \<open>The relational operators. \<^verbatim>\<open>throw std::out_of_range\<close> is the value
  \<open>Inl Out_of_range\<close>.\<close>

definition range_less :: "anglerange \<Rightarrow> anglerange \<Rightarrow> error + bool" where
  "range_less this other =
     (if isempty this \<or> isempty other then Inr False
      else if sortby this = SRT_LOWER
        then Inr (angle_less (lowerborder this) (lowerborder other))
      else if sortby this = SRT_UPPER
        then Inr (angle_less (upperborder this) (upperborder other))
      else if sortby this = SRT_SIZE then
        (if fullcircle other then Inr (\<not> fullcircle this)
         else if fullcircle this then Inr False
         else Inr (angle_less (angle_minus (upperborder this) (lowerborder this))
                              (angle_minus (upperborder other) (lowerborder other))))
      else Inl Out_of_range)"

definition range_greater :: "anglerange \<Rightarrow> anglerange \<Rightarrow> error + bool" where
  "range_greater this other =
     (if isempty this \<or> isempty other then Inr False
      else if sortby this = SRT_LOWER
        then Inr (angle_greater (lowerborder this) (lowerborder other))
      else if sortby this = SRT_UPPER
        then Inr (angle_greater (upperborder this) (upperborder other))
      else if sortby this = SRT_SIZE then
        (if fullcircle this then Inr (\<not> fullcircle other)
         else if fullcircle other then Inr False
         else Inr (angle_greater (angle_minus (upperborder this) (lowerborder this))
                                 (angle_minus (upperborder other) (lowerborder other))))
      else Inl Out_of_range)"

definition range_le :: "anglerange \<Rightarrow> anglerange \<Rightarrow> error + bool" where
  "range_le this other =
     (if isempty this \<or> isempty other then Inr False
      else (case range_greater this other of
              Inl e \<Rightarrow> Inl e
            | Inr b \<Rightarrow> Inr (\<not> b)))"

definition range_ge :: "anglerange \<Rightarrow> anglerange \<Rightarrow> error + bool" where
  "range_ge this other =
     (if isempty this \<or> isempty other then Inr False
      else (case range_less this other of
              Inl e \<Rightarrow> Inl e
            | Inr b \<Rightarrow> Inr (\<not> b)))"

definition range_eq :: "anglerange \<Rightarrow> anglerange \<Rightarrow> bool" where
  "range_eq this other =
     (if \<not> isempty this \<and> \<not> isempty other
      then angle_eq (lowerborder this) (lowerborder other)
           \<and> angle_eq (upperborder this) (upperborder other)
      else isempty this \<and> isempty other)"

definition range_neq :: "anglerange \<Rightarrow> anglerange \<Rightarrow> bool" where
  "range_neq this other = (\<not> range_eq this other)"

definition valid_range :: "anglerange \<Rightarrow> bool" where
  "valid_range r = (valid_angle (lowerborder r) \<and> valid_angle (upperborder r))"

definition bounds_in_turn :: "anglerange \<Rightarrow> bool" where
  "bounds_in_turn r = (in_turn (lowerborder r) \<and> in_turn (upperborder r))"

definition valid_sorttype :: "sorttype \<Rightarrow> bool" where
  "valid_sorttype s = (s = SRT_LOWER \<or> s = SRT_UPPER \<or> s = SRT_SIZE)"

section \<open>Disjoint arc sets (class angleset)\<close>

record angleset =
  storage :: "anglerange list"
  consistent :: bool

definition angleset_empty :: angleset where
  "angleset_empty = \<lparr>storage = [], consistent = True\<rparr>"

definition angleset_of_range :: "anglerange \<Rightarrow> angleset" where
  "angleset_of_range firstrange =
     \<lparr>storage = (if \<not> isempty firstrange then [setsorttype firstrange SRT_LOWER] else []),
      consistent = True\<rparr>"

definition angleset_of_bounds :: "angleclass \<Rightarrow> angleclass \<Rightarrow> angleset" where
  "angleset_of_bounds firstlower firstupper =
     \<lparr>storage = [setsorttype (anglerange_of firstlower firstupper) SRT_LOWER],
      consistent = True\<rparr>"

text \<open>\<^verbatim>\<open>storage.erase(it)\<close> at index \<open>i\<close>.\<close>

definition erase :: "'a list \<Rightarrow> nat \<Rightarrow> 'a list" where
  "erase s i = take i s @ drop (Suc i) s"

text \<open>
  The merge pass \<^verbatim>\<open>angleset::combine\<close>, with the two iterators as indices.
  \<open>combine_inner cur cmp s\<close> is the \<^verbatim>\<open>while(compare!=curpos)\<close> loop from the state
  where \<^verbatim>\<open>curpos\<close> is at index \<open>cur\<close> and \<^verbatim>\<open>compare\<close> at index \<open>cmp\<close>. The source
  enters it with \<^verbatim>\<open>compare\<close> at the last element, above \<^verbatim>\<open>curpos\<close>, and only
  decrements, so \<open>cmp \<le> cur\<close> is reached exactly when the two are equal.
\<close>

fun combine_inner :: "nat \<Rightarrow> nat \<Rightarrow> anglerange list \<Rightarrow> anglerange list" where
  "combine_inner cur cmp s =
     (if cmp \<le> cur then s
      else
        (let tmp = combine (s ! cur) (s ! cmp) in
         if \<not> isempty tmp
         then combine_inner cur (cmp - 1) (erase (s[cur := tmp]) cmp)
         else combine_inner cur (cmp - 1) s))"

text \<open>
  \<open>combine_outer n s\<close> is the \<^verbatim>\<open>for\<close> loop with \<open>n\<close> positions still to visit:
  \<^verbatim>\<open>curpos\<close> is at index \<open>n - 1\<close> and walks down to the first element; each round
  starts \<^verbatim>\<open>compare\<close> at \<^verbatim>\<open>storage.end()-1\<close> of the current vector.
\<close>

fun combine_outer :: "nat \<Rightarrow> anglerange list \<Rightarrow> anglerange list" where
  "combine_outer 0 s = s"
| "combine_outer (Suc cur) s = combine_outer cur (combine_inner cur (length s - 1) s)"

definition combine_pass :: "anglerange list \<Rightarrow> anglerange list" where
  "combine_pass s = (if length s \<ge> 2 then combine_outer (length s - 1) s else s)"

definition angleset_combine :: "angleset \<Rightarrow> angleset" where
  "angleset_combine st = st\<lparr>storage := combine_pass (storage st), consistent := True\<rparr>"

definition add_range :: "angleset \<Rightarrow> anglerange \<Rightarrow> angleset" where
  "add_range st v =
     (if \<not> isempty v
      then angleset_combine (st\<lparr>storage := storage st @ [setsorttype v SRT_LOWER]\<rparr>)
      else st)"

definition add_set :: "angleset \<Rightarrow> angleset \<Rightarrow> angleset" where
  "add_set st v = angleset_combine (st\<lparr>storage := storage st @ storage v\<rparr>)"

text \<open>\<^verbatim>\<open>angleset::add(const double &lower, const double &upper)\<close>: both doubles pass
  through the converting constructor of \<^verbatim>\<open>angleclass\<close>.\<close>

definition add_bounds :: "angleset \<Rightarrow> real \<Rightarrow> real \<Rightarrow> angleset" where
  "add_bounds st lower upper =
     angleset_combine
       (st\<lparr>storage := storage st
              @ [setsorttype (anglerange_of (angle_of lower) (angle_of upper)) SRT_LOWER]\<rparr>)"

text \<open>
  A description of one round of the inner loop by recursion on the list of
  the elements it visits, in the order it visits them (from the last element
  of the vector down), used in the proofs about the merge pass: the arc at
  \<^verbatim>\<open>curpos\<close> is returned with the elements it did not absorb.
\<close>

fun absorb :: "anglerange \<Rightarrow> anglerange list \<Rightarrow> anglerange \<times> anglerange list" where
  "absorb x [] = (x, [])"
| "absorb x (y # ys) =
     (let tmp = combine x y in
      if \<not> isempty tmp then absorb tmp ys
      else (case absorb x ys of (x', r) \<Rightarrow> (x', y # r)))"

definition combine_round :: "anglerange \<Rightarrow> anglerange list \<Rightarrow> anglerange list" where
  "combine_round x t = (case absorb x (rev t) of (x', r) \<Rightarrow> x' # rev r)"

text \<open>Two arcs share no angle.\<close>

definition arcs_disjoint :: "anglerange \<Rightarrow> anglerange \<Rightarrow> bool" where
  "arcs_disjoint a b = (\<forall>v. \<not> (isinside a v \<and> isinside b v))"

text \<open>No two stored arcs at different positions combine into a non-empty arc.\<close>

definition no_pair_combines :: "anglerange list \<Rightarrow> bool" where
  "no_pair_combines s =
     (\<forall>i < length s. \<forall>j < length s. i \<noteq> j \<longrightarrow> isempty (combine (s ! i) (s ! j)))"

text \<open>
  Arcs whose upper bound holds the scalar \<open>2.0*M_PI\<close>. The constructor stores
  that scalar for a small negative argument: for \<^verbatim>\<open>angleclass(-1e-17)\<close> the
  quotient rounds to a tiny negative double, \<^verbatim>\<open>floor\<close> gives -1, and the sum
  \<open>-1e-17 + 2.0*M_PI\<close> rounds to \<open>2.0*M_PI\<close>. The arcs are
  \<^verbatim>\<open>anglerange(angleclass(5.0), angleclass(-1e-17))\<close>, the same with 6.0, and
  \<^verbatim>\<open>anglerange(angleclass(0.0), angleclass(1.0))\<close>. The two sets are what
  \<^verbatim>\<open>angleset(angleclass(5.0), angleclass(-1e-17))\<close> holds, and what
  \<^verbatim>\<open>angleset(angleclass(6.0), angleclass(-1e-17))\<close> holds after \<^verbatim>\<open>add(0.0, 1.0)\<close>
  (these two arcs do not combine); a stored arc carries the sort mode by-lower.
\<close>

definition arc_5_turn :: anglerange where
  "arc_5_turn = anglerange_of \<lparr>getval = 5\<rparr> \<lparr>getval = 2 * M_PI\<rparr>"

definition arc_6_turn :: anglerange where
  "arc_6_turn = anglerange_of \<lparr>getval = 6\<rparr> \<lparr>getval = 2 * M_PI\<rparr>"

definition arc_0_1 :: anglerange where
  "arc_0_1 = anglerange_of \<lparr>getval = 0\<rparr> \<lparr>getval = 1\<rparr>"

definition set_5_turn :: angleset where
  "set_5_turn = \<lparr>storage = [setsorttype arc_5_turn SRT_LOWER], consistent = True\<rparr>"

definition set_6_turn_0_1 :: angleset where
  "set_6_turn_0_1 =
     \<lparr>storage = [setsorttype arc_6_turn SRT_LOWER, setsorttype arc_0_1 SRT_LOWER],
      consistent = True\<rparr>"

text \<open>Degrees to radians, as the driver converts its arguments (\<^verbatim>\<open>*M_PI/180.0\<close>).\<close>

definition deg :: "real \<Rightarrow> real" where
  "deg d = d * pi / 180"

section \<open>Normalisation of angle values\<close>

lemma turn_positive: "0 < 2 * M_PI"
  by (simp add: M_PI_def)

lemma six_below_turn: "6 < 2 * M_PI"
  by (simp add: M_PI_def)

lemma shiftinrange_id: "0 \<le> x \<Longrightarrow> x < 2 * M_PI \<Longrightarrow> shiftinrange x = x"
proof -
  assume a: "0 \<le> x" "x < 2 * M_PI"
  have "0 \<le> x / (2 * M_PI)" "x / (2 * M_PI) < 1"
    using a turn_positive by simp_all
  then have "\<lfloor>x / (2 * M_PI)\<rfloor> = 0" by linarith
  then show ?thesis by (simp add: shiftinrange_def)
qed

text \<open>Normalising the scalar \<open>2.0*M_PI\<close> gives 0.\<close>

lemma shiftinrange_turn: "shiftinrange (2 * M_PI) = 0"
proof -
  have "2 * M_PI / (2 * M_PI) = 1" using turn_positive by simp
  then show ?thesis by (simp add: shiftinrange_def)
qed

lemma getval_angle_of: "0 \<le> x \<Longrightarrow> x < 2 * M_PI \<Longrightarrow> getval (angle_of x) = x"
  by (simp add: angle_of_def shiftinrange_id)

lemma getval_angle_of_turn: "getval (angle_of (2 * M_PI)) = 0"
  by (simp add: angle_of_def shiftinrange_turn)

lemma getval_small: "0 \<le> x \<Longrightarrow> x \<le> 6 \<Longrightarrow> getval (angle_of x) = x"
  using six_below_turn by (intro getval_angle_of) auto

section \<open>The relational operators of arcs\<close>

text \<open>
  C7. When either operand is empty, each of \<open><\<close>, \<open>>\<close>, \<open><=\<close>, \<open>>=\<close> returns false.
  For two non-empty operands whose receiver has one of the three sort modes,
  \<open>a <= b\<close> returns the negation of \<open>a > b\<close> and \<open>a >= b\<close> the negation of \<open>a < b\<close>.
\<close>

theorem relational_operators:
  "(isempty a \<or> isempty b \<longrightarrow>
      range_less a b = Inr False \<and> range_greater a b = Inr False
      \<and> range_le a b = Inr False \<and> range_ge a b = Inr False)
   \<and> (\<not> isempty a \<and> \<not> isempty b \<and> valid_sorttype (sortby a) \<longrightarrow>
      (\<exists>g l. range_greater a b = Inr g \<and> range_le a b = Inr (\<not> g)
             \<and> range_less a b = Inr l \<and> range_ge a b = Inr (\<not> l)))"
proof -
  have empty_case: "range_less a b = Inr False \<and> range_greater a b = Inr False
      \<and> range_le a b = Inr False \<and> range_ge a b = Inr False"
    if "isempty a \<or> isempty b"
    using that by (simp add: range_less_def range_greater_def range_le_def range_ge_def)
  have set_case: "\<exists>g l. range_greater a b = Inr g \<and> range_le a b = Inr (\<not> g)
      \<and> range_less a b = Inr l \<and> range_ge a b = Inr (\<not> l)"
    if h: "\<not> isempty a \<and> \<not> isempty b \<and> valid_sorttype (sortby a)"
  proof -
    have "\<exists>g. range_greater a b = Inr g"
      using h by (auto simp: range_greater_def valid_sorttype_def
          SRT_LOWER_def SRT_UPPER_def SRT_SIZE_def)
    then obtain g where g: "range_greater a b = Inr g" ..
    have "\<exists>l. range_less a b = Inr l"
      using h by (auto simp: range_less_def valid_sorttype_def
          SRT_LOWER_def SRT_UPPER_def SRT_SIZE_def)
    then obtain l where l: "range_less a b = Inr l" ..
    have "range_le a b = Inr (\<not> g)" "range_ge a b = Inr (\<not> l)"
      using h g l by (simp_all add: range_le_def range_ge_def)
    with g l show ?thesis by blast
  qed
  show ?thesis using empty_case set_case by blast
qed

theorem relational_operators_witness:
  "(isempty anglerange_default \<or> isempty (anglerange_of (angle_of 1) (angle_of 2)))
   \<and> range_le anglerange_default (anglerange_of (angle_of 1) (angle_of 2)) = Inr False
   \<and> (\<not> isempty (anglerange_of (angle_of 1) (angle_of 2))
      \<and> \<not> isempty (anglerange_of (angle_of 1) (angle_of 2))
      \<and> valid_sorttype (sortby (anglerange_of (angle_of 1) (angle_of 2))))
   \<and> (\<exists>g l. range_greater (anglerange_of (angle_of 1) (angle_of 2))
                (anglerange_of (angle_of 1) (angle_of 2)) = Inr g
            \<and> range_le (anglerange_of (angle_of 1) (angle_of 2))
                (anglerange_of (angle_of 1) (angle_of 2)) = Inr (\<not> g)
            \<and> range_less (anglerange_of (angle_of 1) (angle_of 2))
                (anglerange_of (angle_of 1) (angle_of 2)) = Inr l
            \<and> range_ge (anglerange_of (angle_of 1) (angle_of 2))
                (anglerange_of (angle_of 1) (angle_of 2)) = Inr (\<not> l))"
proof -
  have e: "isempty anglerange_default"
    by (simp add: isempty_def anglerange_default_def)
  have n: "\<not> isempty (anglerange_of (angle_of 1) (angle_of 2))"
    by (simp add: isempty_def anglerange_of_def)
  have v: "valid_sorttype (sortby (anglerange_of (angle_of 1) (angle_of 2)))"
    by (simp add: valid_sorttype_def anglerange_of_def)
  show ?thesis
    using e n v
      relational_operators [of anglerange_default "anglerange_of (angle_of 1) (angle_of 2)"]
      relational_operators [of "anglerange_of (angle_of 1) (angle_of 2)"
                               "anglerange_of (angle_of 1) (angle_of 2)"]
    by blast
qed

text \<open>
  C8. Comparing two non-empty arcs when the receiver's sort mode is none of
  by-lower, by-upper and by-size throws: each of the four operators ends in
  the exception, none returns an ordering.
\<close>

theorem invalid_sorttype_throws:
  assumes "\<not> isempty a" and "\<not> isempty b" and "\<not> valid_sorttype (sortby a)"
  shows "range_less a b = Inl Out_of_range \<and> range_greater a b = Inl Out_of_range
         \<and> range_le a b = Inl Out_of_range \<and> range_ge a b = Inl Out_of_range"
  using assms
  by (simp add: range_less_def range_greater_def range_le_def range_ge_def valid_sorttype_def)

theorem invalid_sorttype_throws_witness:
  "\<not> isempty (setsorttype (anglerange_of (angle_of 1) (angle_of 2)) 3)
   \<and> \<not> isempty (anglerange_of (angle_of 0) (angle_of 1))
   \<and> \<not> valid_sorttype (sortby (setsorttype (anglerange_of (angle_of 1) (angle_of 2)) 3))
   \<and> range_less (setsorttype (anglerange_of (angle_of 1) (angle_of 2)) 3)
        (anglerange_of (angle_of 0) (angle_of 1)) = Inl Out_of_range
   \<and> range_ge (setsorttype (anglerange_of (angle_of 1) (angle_of 2)) 3)
        (anglerange_of (angle_of 0) (angle_of 1)) = Inl Out_of_range"
proof -
  have a: "\<not> isempty (setsorttype (anglerange_of (angle_of 1) (angle_of 2)) 3)"
    by (simp add: isempty_def setsorttype_def anglerange_of_def)
  have b: "\<not> isempty (anglerange_of (angle_of 0) (angle_of 1))"
    by (simp add: isempty_def anglerange_of_def)
  have c: "\<not> valid_sorttype (sortby (setsorttype (anglerange_of (angle_of 1) (angle_of 2)) 3))"
    by (simp add: valid_sorttype_def setsorttype_def SRT_LOWER_def SRT_UPPER_def SRT_SIZE_def)
  show ?thesis using a b c invalid_sorttype_throws [OF a b c] by simp
qed

text \<open>
  C10. When either operand is empty, each of \<open><\<close>, \<open>>\<close>, \<open><=\<close>, \<open>>=\<close> returns false
  whatever the sort-mode fields hold: the emptiness test comes first, so an
  unrecognised sort mode does not throw there.
\<close>

theorem empty_operand_never_throws:
  assumes "isempty a \<or> isempty b"
  shows "range_less (setsorttype a s) (setsorttype b t) = Inr False
         \<and> range_greater (setsorttype a s) (setsorttype b t) = Inr False
         \<and> range_le (setsorttype a s) (setsorttype b t) = Inr False
         \<and> range_ge (setsorttype a s) (setsorttype b t) = Inr False"
  using assms
  by (auto simp: range_less_def range_greater_def range_le_def range_ge_def
      isempty_def setsorttype_def)

theorem empty_operand_never_throws_witness:
  "(isempty (anglerange_of (angle_of 1) (angle_of 2)) \<or> isempty anglerange_default)
   \<and> \<not> valid_sorttype 7
   \<and> range_less (setsorttype (anglerange_of (angle_of 1) (angle_of 2)) 7)
        (setsorttype anglerange_default 7) = Inr False
   \<and> range_le (setsorttype (anglerange_of (angle_of 1) (angle_of 2)) 7)
        (setsorttype anglerange_default 7) = Inr False"
proof -
  have e: "isempty (anglerange_of (angle_of 1) (angle_of 2)) \<or> isempty anglerange_default"
    by (simp add: isempty_def anglerange_default_def)
  have v: "\<not> valid_sorttype 7"
    by (simp add: valid_sorttype_def SRT_LOWER_def SRT_UPPER_def SRT_SIZE_def)
  show ?thesis using e v empty_operand_never_throws [OF e, of 7 7] by simp
qed

section \<open>Union of two arcs\<close>


lemma setter_simps:
  "isempty (setupper (setlower r l) u) = False"
  "isempty (setcircle r True) = False"
  "fullcircle (setupper (setlower r l) u) = fullcircle r"
  "fullcircle (setcircle r True) = True"
  "lowerborder (setupper (setlower r l) u) = l"
  "upperborder (setupper (setlower r l) u) = u"
  "fullcircle (setsorttype r s) = fullcircle r"
  "isempty (setsorttype r s) = isempty r"
  "lowerborder (setsorttype r s) = lowerborder r"
  "upperborder (setsorttype r s) = upperborder r"
  "fullcircle anglerange_default = False"
  "isempty anglerange_default = True"
  by (simp_all add: isempty_def setupper_def setlower_def setcircle_def setsorttype_def
      anglerange_default_def)

lemma isinside_simps:
  "isinside (setcircle r True) v = True"
  "isinside (setupper (setlower r l) u) v =
     (fullcircle r \<or> (if getval l > getval u then getval v \<ge> getval l \<or> getval v \<le> getval u
                       else getval l \<le> getval v \<and> getval v \<le> getval u))"
  "isinside (setsorttype r s) v = isinside r v"
  by (simp_all add: isinside_def setter_simps angle_greater_def angle_ge_def angle_le_def)

lemma isinside_plain:
  "\<not> isempty r \<Longrightarrow> \<not> fullcircle r \<Longrightarrow>
   isinside r v = (if getval (lowerborder r) > getval (upperborder r)
                   then getval v \<ge> getval (lowerborder r) \<or> getval v \<le> getval (upperborder r)
                   else getval (lowerborder r) \<le> getval v \<and> getval v \<le> getval (upperborder r))"
  by (simp add: isinside_def angle_greater_def angle_ge_def angle_le_def)

lemma isinside_lower: "\<not> isempty r \<Longrightarrow> isinside r (lowerborder r)"
  by (simp add: isinside_def angle_greater_def angle_ge_def angle_le_def)

lemma combine_empty_operand: "isempty A \<or> isempty B \<Longrightarrow> isempty (combine A B)"
  by (auto simp: combine_def Let_def setter_simps)

lemma combine_full_other:
  "\<not> isempty A \<Longrightarrow> \<not> isempty B \<Longrightarrow> fullcircle B \<Longrightarrow> combine A B = setsorttype B (sortby A)"
  by (simp add: combine_def Let_def)

lemma combine_full_this:
  assumes "\<not> isempty A" "\<not> isempty B" "fullcircle A"
  shows "fullcircle (combine A B) \<and> \<not> isempty (combine A B)"
  using assms by (simp add: combine_def Let_def setter_simps)

lemma getval_angle_of_min:
  "in_turn a \<Longrightarrow> in_turn b \<Longrightarrow>
   getval (angle_of (min (getval a) (getval b))) = min (getval a) (getval b)"
  by (simp add: in_turn_def getval_angle_of min_def)

lemma getval_angle_of_max:
  "in_turn a \<Longrightarrow> in_turn b \<Longrightarrow>
   getval (angle_of (max (getval a) (getval b))) = max (getval a) (getval b)"
  by (simp add: in_turn_def getval_angle_of max_def)

lemmas cmp_defs = angle_greater_def angle_ge_def angle_le_def getlower_def getupper_def

lemma combine_ww:
  assumes "\<not> isempty A" "\<not> isempty B" "\<not> fullcircle A" "\<not> fullcircle B"
    and "getval (lowerborder A) > getval (upperborder A)"
    and "getval (lowerborder B) > getval (upperborder B)"
  shows "combine A B =
    (if getval (lowerborder A) \<le> getval (upperborder B)
        \<or> getval (lowerborder B) \<le> getval (upperborder A)
     then setcircle (setsorttype anglerange_default (sortby A)) True
     else setupper
            (setlower (setsorttype anglerange_default (sortby A))
               (angle_of (min (getval (lowerborder A)) (getval (lowerborder B)))))
            (angle_of (max (getval (upperborder A)) (getval (upperborder B)))))"
  using assms by (simp add: combine_def Let_def cmp_defs)

lemma combine_wr:
  assumes "\<not> isempty A" "\<not> isempty B" "\<not> fullcircle A" "\<not> fullcircle B"
    and "getval (lowerborder A) > getval (upperborder A)"
    and "\<not> getval (lowerborder B) > getval (upperborder B)"
  shows "combine A B =
    (let r = setsorttype anglerange_default (sortby A) in
     if getval (upperborder B) \<le> getval (upperborder A)
        \<or> getval (lowerborder B) \<ge> getval (lowerborder A)
     then setupper (setlower r (lowerborder A)) (upperborder A)
     else if getval (lowerborder B) \<le> getval (upperborder A)
             \<and> getval (upperborder B) \<ge> getval (lowerborder A)
     then setcircle r True
     else if getval (upperborder B) \<ge> getval (lowerborder A)
     then setupper (setlower r (lowerborder B)) (upperborder A)
     else if getval (lowerborder B) \<le> getval (upperborder A)
     then setupper (setlower r (lowerborder A)) (upperborder B)
     else r)"
  using assms by (simp add: combine_def Let_def cmp_defs)

lemma combine_rw:
  assumes "\<not> isempty A" "\<not> isempty B" "\<not> fullcircle A" "\<not> fullcircle B"
    and "\<not> getval (lowerborder A) > getval (upperborder A)"
    and "getval (lowerborder B) > getval (upperborder B)"
  shows "combine A B =
    (let r = setsorttype anglerange_default (sortby A) in
     if getval (upperborder A) \<le> getval (upperborder B)
        \<or> getval (lowerborder A) \<ge> getval (lowerborder B)
     then setupper (setlower r (lowerborder B)) (upperborder B)
     else if getval (lowerborder A) \<le> getval (upperborder B)
             \<and> getval (upperborder A) \<ge> getval (lowerborder B)
     then setcircle r True
     else if getval (lowerborder A) \<le> getval (upperborder B)
     then setupper (setlower r (lowerborder B)) (upperborder A)
     else if getval (upperborder A) \<ge> getval (lowerborder B)
     then setupper (setlower r (lowerborder A)) (upperborder B)
     else r)"
  using assms by (simp add: combine_def Let_def cmp_defs)

lemma combine_rr:
  assumes "\<not> isempty A" "\<not> isempty B" "\<not> fullcircle A" "\<not> fullcircle B"
    and "\<not> getval (lowerborder A) > getval (upperborder A)"
    and "\<not> getval (lowerborder B) > getval (upperborder B)"
  shows "combine A B =
    (let r = setsorttype anglerange_default (sortby A) in
     if min (getval (upperborder B)) (getval (upperborder A))
          \<ge> max (getval (lowerborder B)) (getval (lowerborder A))
     then setupper
            (setlower r (angle_of (min (getval (lowerborder B)) (getval (lowerborder A)))))
            (angle_of (max (getval (upperborder B)) (getval (upperborder A))))
     else r)"
  using assms by (simp add: combine_def Let_def cmp_defs)

lemma member_ww:
  assumes ne: "\<not> isempty A" "\<not> isempty B" and nf: "\<not> fullcircle A" "\<not> fullcircle B"
    and w: "getval (lowerborder A) > getval (upperborder A)" "getval (lowerborder B) > getval (upperborder B)"
    and v: "bounds_in_turn A" "bounds_in_turn B"
    and r: "\<not> isempty (combine A B)"
  shows "isinside (combine A B) v = (isinside A v \<or> isinside B v)"
proof -
  have mn: "getval (angle_of (min (getval (lowerborder A)) (getval (lowerborder B)))) = min (getval (lowerborder A)) (getval (lowerborder B))"
    "getval (angle_of (min (getval (lowerborder B)) (getval (lowerborder A)))) = min (getval (lowerborder B)) (getval (lowerborder A))"
    "getval (angle_of (max (getval (upperborder A)) (getval (upperborder B)))) = max (getval (upperborder A)) (getval (upperborder B))"
    "getval (angle_of (max (getval (upperborder B)) (getval (upperborder A)))) = max (getval (upperborder B)) (getval (upperborder A))"
    using v by (simp_all add: bounds_in_turn_def getval_angle_of_min getval_angle_of_max)
  show ?thesis
    using r w
    unfolding combine_ww [OF ne nf w] isinside_plain [OF ne(1) nf(1)] isinside_plain [OF ne(2) nf(2)] Let_def
    by (auto simp: isinside_simps setter_simps mn split: if_splits)
qed

lemma disjoint_ww:
  assumes ne: "\<not> isempty A" "\<not> isempty B" and nf: "\<not> fullcircle A" "\<not> fullcircle B"
    and w: "getval (lowerborder A) > getval (upperborder A)" "getval (lowerborder B) > getval (upperborder B)"
  shows "isempty (combine A B) = (\<forall>v. \<not> (isinside A v \<and> isinside B v))"
proof
  assume "isempty (combine A B)"
  then show "\<forall>v. \<not> (isinside A v \<and> isinside B v)"
    using w
    unfolding combine_ww [OF ne nf w] isinside_plain [OF ne(1) nf(1)] isinside_plain [OF ne(2) nf(2)] Let_def
    by (auto simp: setter_simps split: if_splits)
next
  assume d: "\<forall>v. \<not> (isinside A v \<and> isinside B v)"
  then have "\<not> (isinside A (lowerborder A) \<and> isinside B (lowerborder A))"
    "\<not> (isinside A (lowerborder B) \<and> isinside B (lowerborder B))"
    "\<not> (isinside A (upperborder A) \<and> isinside B (upperborder A))"
    "\<not> (isinside A (upperborder B) \<and> isinside B (upperborder B))"
    by blast+
  then show "isempty (combine A B)"
    using w
    unfolding combine_ww [OF ne nf w] isinside_plain [OF ne(1) nf(1)] isinside_plain [OF ne(2) nf(2)] Let_def
    by (auto simp: setter_simps split: if_splits)
qed

lemma member_wr:
  assumes ne: "\<not> isempty A" "\<not> isempty B" and nf: "\<not> fullcircle A" "\<not> fullcircle B"
    and w: "getval (lowerborder A) > getval (upperborder A)" "\<not> getval (lowerborder B) > getval (upperborder B)"
    and v: "bounds_in_turn A" "bounds_in_turn B"
    and r: "\<not> isempty (combine A B)"
  shows "isinside (combine A B) v = (isinside A v \<or> isinside B v)"
proof -
  have mn: "getval (angle_of (min (getval (lowerborder A)) (getval (lowerborder B)))) = min (getval (lowerborder A)) (getval (lowerborder B))"
    "getval (angle_of (min (getval (lowerborder B)) (getval (lowerborder A)))) = min (getval (lowerborder B)) (getval (lowerborder A))"
    "getval (angle_of (max (getval (upperborder A)) (getval (upperborder B)))) = max (getval (upperborder A)) (getval (upperborder B))"
    "getval (angle_of (max (getval (upperborder B)) (getval (upperborder A)))) = max (getval (upperborder B)) (getval (upperborder A))"
    using v by (simp_all add: bounds_in_turn_def getval_angle_of_min getval_angle_of_max)
  show ?thesis
    using r w
    unfolding combine_wr [OF ne nf w] isinside_plain [OF ne(1) nf(1)] isinside_plain [OF ne(2) nf(2)] Let_def
    by (auto simp: isinside_simps setter_simps mn split: if_splits)
qed

lemma disjoint_wr:
  assumes ne: "\<not> isempty A" "\<not> isempty B" and nf: "\<not> fullcircle A" "\<not> fullcircle B"
    and w: "getval (lowerborder A) > getval (upperborder A)" "\<not> getval (lowerborder B) > getval (upperborder B)"
  shows "isempty (combine A B) = (\<forall>v. \<not> (isinside A v \<and> isinside B v))"
proof
  assume "isempty (combine A B)"
  then show "\<forall>v. \<not> (isinside A v \<and> isinside B v)"
    using w
    unfolding combine_wr [OF ne nf w] isinside_plain [OF ne(1) nf(1)] isinside_plain [OF ne(2) nf(2)] Let_def
    by (auto simp: setter_simps split: if_splits)
next
  assume d: "\<forall>v. \<not> (isinside A v \<and> isinside B v)"
  then have "\<not> (isinside A (lowerborder A) \<and> isinside B (lowerborder A))"
    "\<not> (isinside A (lowerborder B) \<and> isinside B (lowerborder B))"
    "\<not> (isinside A (upperborder A) \<and> isinside B (upperborder A))"
    "\<not> (isinside A (upperborder B) \<and> isinside B (upperborder B))"
    by blast+
  then show "isempty (combine A B)"
    using w
    unfolding combine_wr [OF ne nf w] isinside_plain [OF ne(1) nf(1)] isinside_plain [OF ne(2) nf(2)] Let_def
    by (auto simp: setter_simps split: if_splits)
qed

lemma member_rw:
  assumes ne: "\<not> isempty A" "\<not> isempty B" and nf: "\<not> fullcircle A" "\<not> fullcircle B"
    and w: "\<not> getval (lowerborder A) > getval (upperborder A)" "getval (lowerborder B) > getval (upperborder B)"
    and v: "bounds_in_turn A" "bounds_in_turn B"
    and r: "\<not> isempty (combine A B)"
  shows "isinside (combine A B) v = (isinside A v \<or> isinside B v)"
proof -
  have mn: "getval (angle_of (min (getval (lowerborder A)) (getval (lowerborder B)))) = min (getval (lowerborder A)) (getval (lowerborder B))"
    "getval (angle_of (min (getval (lowerborder B)) (getval (lowerborder A)))) = min (getval (lowerborder B)) (getval (lowerborder A))"
    "getval (angle_of (max (getval (upperborder A)) (getval (upperborder B)))) = max (getval (upperborder A)) (getval (upperborder B))"
    "getval (angle_of (max (getval (upperborder B)) (getval (upperborder A)))) = max (getval (upperborder B)) (getval (upperborder A))"
    using v by (simp_all add: bounds_in_turn_def getval_angle_of_min getval_angle_of_max)
  show ?thesis
    using r w
    unfolding combine_rw [OF ne nf w] isinside_plain [OF ne(1) nf(1)] isinside_plain [OF ne(2) nf(2)] Let_def
    by (auto simp: isinside_simps setter_simps mn split: if_splits)
qed

lemma disjoint_rw:
  assumes ne: "\<not> isempty A" "\<not> isempty B" and nf: "\<not> fullcircle A" "\<not> fullcircle B"
    and w: "\<not> getval (lowerborder A) > getval (upperborder A)" "getval (lowerborder B) > getval (upperborder B)"
  shows "isempty (combine A B) = (\<forall>v. \<not> (isinside A v \<and> isinside B v))"
proof
  assume "isempty (combine A B)"
  then show "\<forall>v. \<not> (isinside A v \<and> isinside B v)"
    using w
    unfolding combine_rw [OF ne nf w] isinside_plain [OF ne(1) nf(1)] isinside_plain [OF ne(2) nf(2)] Let_def
    by (auto simp: setter_simps split: if_splits)
next
  assume d: "\<forall>v. \<not> (isinside A v \<and> isinside B v)"
  then have "\<not> (isinside A (lowerborder A) \<and> isinside B (lowerborder A))"
    "\<not> (isinside A (lowerborder B) \<and> isinside B (lowerborder B))"
    "\<not> (isinside A (upperborder A) \<and> isinside B (upperborder A))"
    "\<not> (isinside A (upperborder B) \<and> isinside B (upperborder B))"
    by blast+
  then show "isempty (combine A B)"
    using w
    unfolding combine_rw [OF ne nf w] isinside_plain [OF ne(1) nf(1)] isinside_plain [OF ne(2) nf(2)] Let_def
    by (auto simp: setter_simps split: if_splits)
qed

lemma member_rr:
  assumes ne: "\<not> isempty A" "\<not> isempty B" and nf: "\<not> fullcircle A" "\<not> fullcircle B"
    and w: "\<not> getval (lowerborder A) > getval (upperborder A)" "\<not> getval (lowerborder B) > getval (upperborder B)"
    and v: "bounds_in_turn A" "bounds_in_turn B"
    and r: "\<not> isempty (combine A B)"
  shows "isinside (combine A B) v = (isinside A v \<or> isinside B v)"
proof -
  have mn: "getval (angle_of (min (getval (lowerborder A)) (getval (lowerborder B)))) = min (getval (lowerborder A)) (getval (lowerborder B))"
    "getval (angle_of (min (getval (lowerborder B)) (getval (lowerborder A)))) = min (getval (lowerborder B)) (getval (lowerborder A))"
    "getval (angle_of (max (getval (upperborder A)) (getval (upperborder B)))) = max (getval (upperborder A)) (getval (upperborder B))"
    "getval (angle_of (max (getval (upperborder B)) (getval (upperborder A)))) = max (getval (upperborder B)) (getval (upperborder A))"
    using v by (simp_all add: bounds_in_turn_def getval_angle_of_min getval_angle_of_max)
  show ?thesis
    using r w
    unfolding combine_rr [OF ne nf w] isinside_plain [OF ne(1) nf(1)] isinside_plain [OF ne(2) nf(2)] Let_def
    by (auto simp: isinside_simps setter_simps mn split: if_splits)
qed

lemma disjoint_rr:
  assumes ne: "\<not> isempty A" "\<not> isempty B" and nf: "\<not> fullcircle A" "\<not> fullcircle B"
    and w: "\<not> getval (lowerborder A) > getval (upperborder A)" "\<not> getval (lowerborder B) > getval (upperborder B)"
  shows "isempty (combine A B) = (\<forall>v. \<not> (isinside A v \<and> isinside B v))"
proof
  assume "isempty (combine A B)"
  then show "\<forall>v. \<not> (isinside A v \<and> isinside B v)"
    using w
    unfolding combine_rr [OF ne nf w] isinside_plain [OF ne(1) nf(1)] isinside_plain [OF ne(2) nf(2)] Let_def
    by (auto simp: setter_simps split: if_splits)
next
  assume d: "\<forall>v. \<not> (isinside A v \<and> isinside B v)"
  then have "\<not> (isinside A (lowerborder A) \<and> isinside B (lowerborder A))"
    "\<not> (isinside A (lowerborder B) \<and> isinside B (lowerborder B))"
    "\<not> (isinside A (upperborder A) \<and> isinside B (upperborder A))"
    "\<not> (isinside A (upperborder B) \<and> isinside B (upperborder B))"
    by blast+
  then show "isempty (combine A B)"
    using w
    unfolding combine_rr [OF ne nf w] isinside_plain [OF ne(1) nf(1)] isinside_plain [OF ne(2) nf(2)] Let_def
    by (auto simp: setter_simps split: if_splits)
qed

lemma isinside_empty: "isempty r \<Longrightarrow> isinside r v = False"
  by (simp add: isinside_def)

lemma isinside_full: "\<not> isempty r \<Longrightarrow> fullcircle r \<Longrightarrow> isinside r v = True"
  by (simp add: isinside_def)

lemma combine_disjoint_iff:
  "isempty (combine A B) = (\<forall>v. \<not> (isinside A v \<and> isinside B v))"
proof -
  consider (e) "isempty A \<or> isempty B"
    | (fb) "\<not> isempty A" "\<not> isempty B" "fullcircle B"
    | (fa) "\<not> isempty A" "\<not> isempty B" "fullcircle A"
    | (p) "\<not> isempty A" "\<not> isempty B" "\<not> fullcircle A" "\<not> fullcircle B"
    by blast
  then show ?thesis
  proof cases
    case e
    then show ?thesis
      using combine_empty_operand [of A B] by (auto simp: isinside_empty)
  next
    case fb
    then have "\<not> isempty (combine A B)"
      by (simp add: combine_full_other setter_simps)
    moreover have "isinside A (lowerborder A) \<and> isinside B (lowerborder A)"
      using fb by (simp add: isinside_lower isinside_full)
    ultimately show ?thesis by blast
  next
    case fa
    then have "\<not> isempty (combine A B)"
      using combine_full_this [of A B] by simp
    moreover have "isinside A (lowerborder B) \<and> isinside B (lowerborder B)"
      using fa by (simp add: isinside_lower isinside_full)
    ultimately show ?thesis by blast
  next
    case p
    show ?thesis
    proof (cases "getval (lowerborder A) > getval (upperborder A)")
      case a: True
      show ?thesis
      proof (cases "getval (lowerborder B) > getval (upperborder B)")
        case True
        with p a show ?thesis by (rule disjoint_ww)
      next
        case False
        with p a show ?thesis by (rule disjoint_wr)
      qed
    next
      case a: False
      show ?thesis
      proof (cases "getval (lowerborder B) > getval (upperborder B)")
        case True
        with p a show ?thesis by (rule disjoint_rw)
      next
        case False
        with p a show ?thesis by (rule disjoint_rr)
      qed
    qed
  qed
qed

lemma combine_member:
  assumes v: "bounds_in_turn A" "bounds_in_turn B" and r: "\<not> isempty (combine A B)"
  shows "isinside (combine A B) v = (isinside A v \<or> isinside B v)"
proof -
  have ne: "\<not> isempty A" "\<not> isempty B"
    using r combine_empty_operand [of A B] by blast+
  consider (fb) "fullcircle B" | (fa) "fullcircle A" | (p) "\<not> fullcircle A" "\<not> fullcircle B"
    by blast
  then show ?thesis
  proof cases
    case fb
    with ne show ?thesis
      by (simp add: combine_full_other isinside_simps isinside_full)
  next
    case fa
    with ne combine_full_this [of A B] show ?thesis
      by (simp add: isinside_full)
  next
    case p
    show ?thesis
    proof (cases "getval (lowerborder A) > getval (upperborder A)")
      case a: True
      show ?thesis
      proof (cases "getval (lowerborder B) > getval (upperborder B)")
        case True
        show ?thesis by (rule member_ww [OF ne p a True v r])
      next
        case False
        show ?thesis by (rule member_wr [OF ne p a False v r])
      qed
    next
      case a: False
      show ?thesis
      proof (cases "getval (lowerborder B) > getval (upperborder B)")
        case True
        show ?thesis by (rule member_rw [OF ne p a True v r])
      next
        case False
        show ?thesis by (rule member_rr [OF ne p a False v r])
      qed
    qed
  qed
qed

lemma in_turn_zero: "in_turn (angle_of 0)"
  using turn_positive by (simp add: in_turn_def getval_angle_of)

lemma in_turn_min:
  "in_turn a \<Longrightarrow> in_turn b \<Longrightarrow> in_turn (angle_of (min (getval a) (getval b)))"
  by (simp add: getval_angle_of_min in_turn_def [of "angle_of _"]) (simp add: in_turn_def min_def)

lemma in_turn_max:
  "in_turn a \<Longrightarrow> in_turn b \<Longrightarrow> in_turn (angle_of (max (getval a) (getval b)))"
  by (simp add: getval_angle_of_max in_turn_def [of "angle_of _"]) (simp add: in_turn_def max_def)

lemma turn_simps:
  "bounds_in_turn (setupper (setlower r l) u) = (in_turn l \<and> in_turn u)"
  "bounds_in_turn (setcircle r True)"
  "bounds_in_turn (setsorttype r s) = bounds_in_turn r"
  "bounds_in_turn anglerange_default"
  by (simp_all add: bounds_in_turn_def setupper_def setlower_def setcircle_def setsorttype_def
      anglerange_default_def in_turn_zero)

lemma bounds_in_turn_combine:
  assumes "bounds_in_turn A" "bounds_in_turn B"
  shows "bounds_in_turn (combine A B)"
proof -
  have b: "in_turn (lowerborder A)" "in_turn (upperborder A)"
    "in_turn (lowerborder B)" "in_turn (upperborder B)"
    using assms by (simp_all add: bounds_in_turn_def)
  show ?thesis
    using assms b
    by (simp add: combine_def Let_def turn_simps in_turn_min in_turn_max getlower_def
        getupper_def)
qed




section \<open>Intersection of two arcs\<close>

lemma overlap_empty_operand: "isempty A \<or> isempty B \<Longrightarrow> isempty (overlap A B)"
  by (auto simp: overlap_def Let_def setter_simps)

lemma overlap_full_this:
  "\<not> isempty A \<Longrightarrow> \<not> isempty B \<Longrightarrow> fullcircle A \<Longrightarrow> overlap A B = setsorttype B (sortby A)"
  by (simp add: overlap_def Let_def)

lemma overlap_full_other:
  "\<not> isempty A \<Longrightarrow> \<not> isempty B \<Longrightarrow> \<not> fullcircle A \<Longrightarrow> fullcircle B \<Longrightarrow> overlap A B = A"
  by (simp add: overlap_def Let_def)

lemma overlap_ww:
  assumes "\<not> isempty A" "\<not> isempty B" "\<not> fullcircle A" "\<not> fullcircle B"
    and "getval (lowerborder A) > getval (upperborder A)"
    and "getval (lowerborder B) > getval (upperborder B)"
  shows "overlap A B =
    setupper
      (setlower (setsorttype anglerange_default (sortby A))
         (angle_of (max (getval (lowerborder A)) (getval (lowerborder B)))))
      (angle_of (min (getval (upperborder A)) (getval (upperborder B))))"
  using assms by (simp add: overlap_def Let_def cmp_defs)

lemma overlap_wr:
  assumes "\<not> isempty A" "\<not> isempty B" "\<not> fullcircle A" "\<not> fullcircle B"
    and "getval (lowerborder A) > getval (upperborder A)"
    and "\<not> getval (lowerborder B) > getval (upperborder B)"
  shows "overlap A B =
    (let r = setsorttype anglerange_default (sortby A) in
     if getval (upperborder B) \<le> getval (upperborder A)
        \<or> getval (lowerborder B) \<ge> getval (lowerborder A)
     then setupper (setlower r (lowerborder B)) (upperborder B)
     else if getval (upperborder B) \<ge> getval (lowerborder A)
     then setupper (setlower r (lowerborder A)) (upperborder B)
     else if getval (lowerborder B) \<le> getval (upperborder A)
     then setupper (setlower r (lowerborder B)) (upperborder A)
     else r)"
  using assms by (simp add: overlap_def Let_def cmp_defs)

lemma overlap_rw:
  assumes "\<not> isempty A" "\<not> isempty B" "\<not> fullcircle A" "\<not> fullcircle B"
    and "\<not> getval (lowerborder A) > getval (upperborder A)"
    and "getval (lowerborder B) > getval (upperborder B)"
  shows "overlap A B =
    (let r = setsorttype anglerange_default (sortby A) in
     if getval (upperborder A) \<le> getval (upperborder B)
        \<or> getval (lowerborder A) \<ge> getval (lowerborder B)
     then setupper (setlower r (lowerborder A)) (upperborder A)
     else if getval (lowerborder A) \<le> getval (upperborder B)
     then setupper (setlower r (lowerborder A)) (upperborder B)
     else if getval (upperborder A) \<ge> getval (lowerborder B)
     then setupper (setlower r (lowerborder B)) (upperborder A)
     else r)"
  using assms by (simp add: overlap_def Let_def cmp_defs)

lemma overlap_rr:
  assumes "\<not> isempty A" "\<not> isempty B" "\<not> fullcircle A" "\<not> fullcircle B"
    and "\<not> getval (lowerborder A) > getval (upperborder A)"
    and "\<not> getval (lowerborder B) > getval (upperborder B)"
  shows "overlap A B =
    (let r = setsorttype anglerange_default (sortby A) in
     if min (getval (upperborder B)) (getval (upperborder A))
          \<ge> max (getval (lowerborder B)) (getval (lowerborder A))
     then setupper
            (setlower r (angle_of (max (getval (lowerborder B)) (getval (lowerborder A)))))
            (angle_of (min (getval (upperborder B)) (getval (upperborder A))))
     else r)"
  using assms by (simp add: overlap_def Let_def cmp_defs)

lemma sound_ww:
  assumes ne: "\<not> isempty A" "\<not> isempty B" and nf: "\<not> fullcircle A" "\<not> fullcircle B"
    and w: "getval (lowerborder A) > getval (upperborder A)" "getval (lowerborder B) > getval (upperborder B)"
    and v: "bounds_in_turn A" "bounds_in_turn B"
    and r: "isinside (overlap A B) v"
  shows "isinside A v \<and> isinside B v"
proof -
  have mn: "getval (angle_of (min (getval (upperborder A)) (getval (upperborder B)))) = min (getval (upperborder A)) (getval (upperborder B))"
    "getval (angle_of (min (getval (upperborder B)) (getval (upperborder A)))) = min (getval (upperborder B)) (getval (upperborder A))"
    "getval (angle_of (max (getval (lowerborder A)) (getval (lowerborder B)))) = max (getval (lowerborder A)) (getval (lowerborder B))"
    "getval (angle_of (max (getval (lowerborder B)) (getval (lowerborder A)))) = max (getval (lowerborder B)) (getval (lowerborder A))"
    using v by (simp_all add: bounds_in_turn_def getval_angle_of_min getval_angle_of_max)
  show ?thesis
    using r w
    unfolding overlap_ww [OF ne nf w] isinside_plain [OF ne(1) nf(1)] isinside_plain [OF ne(2) nf(2)] Let_def
    by (auto simp: isinside_simps setter_simps isinside_empty mn split: if_splits)
qed

lemma sound_wr:
  assumes ne: "\<not> isempty A" "\<not> isempty B" and nf: "\<not> fullcircle A" "\<not> fullcircle B"
    and w: "getval (lowerborder A) > getval (upperborder A)" "\<not> getval (lowerborder B) > getval (upperborder B)"
    and v: "bounds_in_turn A" "bounds_in_turn B"
    and r: "isinside (overlap A B) v"
  shows "isinside A v \<and> isinside B v"
proof -
  have mn: "getval (angle_of (min (getval (upperborder A)) (getval (upperborder B)))) = min (getval (upperborder A)) (getval (upperborder B))"
    "getval (angle_of (min (getval (upperborder B)) (getval (upperborder A)))) = min (getval (upperborder B)) (getval (upperborder A))"
    "getval (angle_of (max (getval (lowerborder A)) (getval (lowerborder B)))) = max (getval (lowerborder A)) (getval (lowerborder B))"
    "getval (angle_of (max (getval (lowerborder B)) (getval (lowerborder A)))) = max (getval (lowerborder B)) (getval (lowerborder A))"
    using v by (simp_all add: bounds_in_turn_def getval_angle_of_min getval_angle_of_max)
  show ?thesis
    using r w
    unfolding overlap_wr [OF ne nf w] isinside_plain [OF ne(1) nf(1)] isinside_plain [OF ne(2) nf(2)] Let_def
    by (auto simp: isinside_simps setter_simps isinside_empty mn split: if_splits)
qed

lemma sound_rw:
  assumes ne: "\<not> isempty A" "\<not> isempty B" and nf: "\<not> fullcircle A" "\<not> fullcircle B"
    and w: "\<not> getval (lowerborder A) > getval (upperborder A)" "getval (lowerborder B) > getval (upperborder B)"
    and v: "bounds_in_turn A" "bounds_in_turn B"
    and r: "isinside (overlap A B) v"
  shows "isinside A v \<and> isinside B v"
proof -
  have mn: "getval (angle_of (min (getval (upperborder A)) (getval (upperborder B)))) = min (getval (upperborder A)) (getval (upperborder B))"
    "getval (angle_of (min (getval (upperborder B)) (getval (upperborder A)))) = min (getval (upperborder B)) (getval (upperborder A))"
    "getval (angle_of (max (getval (lowerborder A)) (getval (lowerborder B)))) = max (getval (lowerborder A)) (getval (lowerborder B))"
    "getval (angle_of (max (getval (lowerborder B)) (getval (lowerborder A)))) = max (getval (lowerborder B)) (getval (lowerborder A))"
    using v by (simp_all add: bounds_in_turn_def getval_angle_of_min getval_angle_of_max)
  show ?thesis
    using r w
    unfolding overlap_rw [OF ne nf w] isinside_plain [OF ne(1) nf(1)] isinside_plain [OF ne(2) nf(2)] Let_def
    by (auto simp: isinside_simps setter_simps isinside_empty mn split: if_splits)
qed

lemma sound_rr:
  assumes ne: "\<not> isempty A" "\<not> isempty B" and nf: "\<not> fullcircle A" "\<not> fullcircle B"
    and w: "\<not> getval (lowerborder A) > getval (upperborder A)" "\<not> getval (lowerborder B) > getval (upperborder B)"
    and v: "bounds_in_turn A" "bounds_in_turn B"
    and r: "isinside (overlap A B) v"
  shows "isinside A v \<and> isinside B v"
proof -
  have mn: "getval (angle_of (min (getval (upperborder A)) (getval (upperborder B)))) = min (getval (upperborder A)) (getval (upperborder B))"
    "getval (angle_of (min (getval (upperborder B)) (getval (upperborder A)))) = min (getval (upperborder B)) (getval (upperborder A))"
    "getval (angle_of (max (getval (lowerborder A)) (getval (lowerborder B)))) = max (getval (lowerborder A)) (getval (lowerborder B))"
    "getval (angle_of (max (getval (lowerborder B)) (getval (lowerborder A)))) = max (getval (lowerborder B)) (getval (lowerborder A))"
    using v by (simp_all add: bounds_in_turn_def getval_angle_of_min getval_angle_of_max)
  show ?thesis
    using r w
    unfolding overlap_rr [OF ne nf w] isinside_plain [OF ne(1) nf(1)] isinside_plain [OF ne(2) nf(2)] Let_def
    by (auto simp: isinside_simps setter_simps isinside_empty mn split: if_splits)
qed

text \<open>
  For arcs whose bounds lie in \<open>[0, 2.0*M_PI)\<close>, an angle inside \<open>A.overlap(B)\<close> is
  inside \<open>A\<close> and inside \<open>B\<close>.
\<close>

lemma overlap_sound_in_turn:
  assumes v: "bounds_in_turn A" "bounds_in_turn B" and r: "isinside (overlap A B) v"
  shows "isinside A v \<and> isinside B v"
proof -
  have ne: "\<not> isempty A" "\<not> isempty B"
    using r overlap_empty_operand [of A B] isinside_empty [of "overlap A B" v] by blast+
  consider (fa) "fullcircle A" | (fb) "\<not> fullcircle A" "fullcircle B"
    | (p) "\<not> fullcircle A" "\<not> fullcircle B"
    by blast
  then show ?thesis
  proof cases
    case fa
    with ne r show ?thesis
      by (simp add: overlap_full_this isinside_simps isinside_full)
  next
    case fb
    with ne r show ?thesis
      by (simp add: overlap_full_other isinside_full)
  next
    case p
    show ?thesis
    proof (cases "getval (lowerborder A) > getval (upperborder A)")
      case a: True
      show ?thesis
      proof (cases "getval (lowerborder B) > getval (upperborder B)")
        case True
        show ?thesis by (rule sound_ww [OF ne p a True v r])
      next
        case False
        show ?thesis by (rule sound_wr [OF ne p a False v r])
      qed
    next
      case a: False
      show ?thesis
      proof (cases "getval (lowerborder B) > getval (upperborder B)")
        case True
        show ?thesis by (rule sound_rw [OF ne p a True v r])
      next
        case False
        show ?thesis by (rule sound_rr [OF ne p a False v r])
      qed
    qed
  qed
qed


section \<open>Full circles\<close>



text \<open>
  C4, as amended. For a full-circle arc \<open>full\<close> and a non-empty arc \<open>X\<close> whose
  bounds are numbers on the turn (so neither is NaN): \<open>full.overlap(X) == X\<close>;
  \<open>X.overlap(full) == X\<close> when \<open>X\<close> is not itself marked full-circle or has the
  bounds of \<open>full\<close>; \<open>full.combine(X)\<close> and \<open>X.combine(full)\<close> are full circles.
\<close>

theorem full_circle_identity:
  assumes "iscircle full" and "\<not> isempty X" and "valid_range X"
  shows "range_eq (overlap full X) X
    \<and> (\<not> fullcircle X
         \<or> (angle_eq (lowerborder X) (lowerborder full)
             \<and> angle_eq (upperborder X) (upperborder full))
        \<longrightarrow> range_eq (overlap X full) X)
    \<and> iscircle (combine full X)
    \<and> iscircle (combine X full)"
proof -
  have f: "\<not> isempty full" "fullcircle full"
    using assms(1) by (simp_all add: iscircle_def)
  have 1: "range_eq (overlap full X) X"
    using f assms(2) by (simp add: overlap_full_this range_eq_def setter_simps angle_eq_def)
  have 2: "range_eq (overlap X full) X"
    if "\<not> fullcircle X \<or> (angle_eq (lowerborder X) (lowerborder full)
             \<and> angle_eq (upperborder X) (upperborder full))"
  proof (cases "fullcircle X")
    case True
    with that f assms(2) show ?thesis
      by (simp add: overlap_full_this range_eq_def setter_simps angle_eq_def)
  next
    case False
    with f assms(2) show ?thesis
      by (simp add: overlap_full_other range_eq_def angle_eq_def)
  qed
  have 3: "iscircle (combine full X)"
  proof (cases "fullcircle X")
    case True
    with f assms(2) show ?thesis
      by (simp add: combine_full_other iscircle_def setter_simps)
  next
    case False
    with f assms(2) combine_full_this [of full X] show ?thesis
      by (simp add: iscircle_def)
  qed
  have 4: "iscircle (combine X full)"
    using f assms(2) by (simp add: combine_full_other iscircle_def setter_simps)
  show ?thesis using 1 2 3 4 by blast
qed

theorem full_circle_identity_witness:
  "iscircle (setcircle anglerange_default True)
   \<and> \<not> isempty (anglerange_of (angle_of 3) (angle_of 1))
   \<and> valid_range (anglerange_of (angle_of 3) (angle_of 1))
   \<and> \<not> fullcircle (anglerange_of (angle_of 3) (angle_of 1))
   \<and> range_eq (overlap (setcircle anglerange_default True)
                  (anglerange_of (angle_of 3) (angle_of 1)))
        (anglerange_of (angle_of 3) (angle_of 1))
   \<and> range_eq (overlap (anglerange_of (angle_of 3) (angle_of 1))
                  (setcircle anglerange_default True))
        (anglerange_of (angle_of 3) (angle_of 1))
   \<and> iscircle (combine (setcircle anglerange_default True)
                  (anglerange_of (angle_of 3) (angle_of 1)))
   \<and> iscircle (combine (anglerange_of (angle_of 3) (angle_of 1))
                  (setcircle anglerange_default True))"
proof -
  have c: "iscircle (setcircle anglerange_default True)"
    by (simp add: iscircle_def setter_simps)
  have n: "\<not> isempty (anglerange_of (angle_of 3) (angle_of 1))"
    by (simp add: isempty_def anglerange_of_def)
  have v: "valid_range (anglerange_of (angle_of 3) (angle_of 1))"
    using pi_ge_two
    by (simp add: valid_range_def valid_angle_def anglerange_of_def getval_small)
  have f: "\<not> fullcircle (anglerange_of (angle_of 3) (angle_of 1))"
    by (simp add: anglerange_of_def)
  show ?thesis
    using c n v f full_circle_identity [OF c n v] by blast
qed

text \<open>
  C4 as stated fails for \<open>X.overlap(full) == X\<close>: after \<^verbatim>\<open>setcircle(true)\<close> and
  \<^verbatim>\<open>setlower(1.0)\<close> the arc \<open>X\<close> is a full circle with lower bound 1 and upper
  bound 0, both on the turn; \<open>overlap\<close> returns \<open>full\<close>, whose bounds are 0, and
  \<open>==\<close> compares the bounds.
\<close>

theorem full_circle_overlap_counterexample:
  "iscircle (setcircle anglerange_default True)
   \<and> \<not> isempty (setlower (setcircle anglerange_default True) (angle_of 1))
   \<and> valid_range (setlower (setcircle anglerange_default True) (angle_of 1))
   \<and> \<not> range_eq (overlap (setlower (setcircle anglerange_default True) (angle_of 1))
                      (setcircle anglerange_default True))
            (setlower (setcircle anglerange_default True) (angle_of 1))"
  using pi_ge_two
  by (simp add: overlap_def Let_def range_eq_def iscircle_def isempty_def setcircle_def
      setlower_def setsorttype_def anglerange_default_def angle_eq_def getval_small
      valid_range_def valid_angle_def)

text \<open>
  Such an arc also comes out of \<open>combine\<close> itself: with a full-circle receiver and
  a wrapping argument the ladder runs after \<^verbatim>\<open>retval = *this\<close> and overwrites the
  bounds, while the flag stays set.
\<close>

lemma combine_of_full_keeps_flag_with_other_bounds:
  "fullcircle (combine (setcircle anglerange_default True)
                 (anglerange_of (angle_of 3) (angle_of 1)))
   \<and> lowerborder (combine (setcircle anglerange_default True)
                    (anglerange_of (angle_of 3) (angle_of 1))) = angle_of 3
   \<and> upperborder (combine (setcircle anglerange_default True)
                    (anglerange_of (angle_of 3) (angle_of 1))) = angle_of 1"
  by (simp add: combine_def Let_def isempty_def setcircle_def setupper_def
      setlower_def setsorttype_def anglerange_default_def anglerange_of_def cmp_defs getval_small)

section \<open>Arcs that hold the scalar \<open>2.0*M_PI\<close>\<close>

lemma stored_arc_simps:
  "\<not> isempty arc_5_turn" "\<not> isempty arc_6_turn" "\<not> isempty arc_0_1"
  "\<not> fullcircle arc_5_turn" "\<not> fullcircle arc_6_turn" "\<not> fullcircle arc_0_1"
  "lowerborder arc_5_turn = \<lparr>getval = 5\<rparr>" "upperborder arc_5_turn = \<lparr>getval = 2 * M_PI\<rparr>"
  "lowerborder arc_6_turn = \<lparr>getval = 6\<rparr>" "upperborder arc_6_turn = \<lparr>getval = 2 * M_PI\<rparr>"
  "lowerborder arc_0_1 = \<lparr>getval = 0\<rparr>" "upperborder arc_0_1 = \<lparr>getval = 1\<rparr>"
  by (simp_all add: arc_5_turn_def arc_6_turn_def arc_0_1_def anglerange_of_def isempty_def)

lemma combine_5_6_turn:
  "combine arc_5_turn arc_6_turn
   = setupper (setlower (setsorttype anglerange_default (sortby arc_5_turn)) (angle_of 5))
       (angle_of (2 * M_PI))"
proof -
  have r: "\<not> getval (lowerborder arc_5_turn) > getval (upperborder arc_5_turn)"
    "\<not> getval (lowerborder arc_6_turn) > getval (upperborder arc_6_turn)"
    using six_below_turn by (simp_all add: stored_arc_simps)
  show ?thesis
    using six_below_turn
    by (simp add: combine_rr [OF stored_arc_simps(1,2,4,5) r] stored_arc_simps Let_def)
qed

lemma overlap_5_6_turn:
  "overlap arc_5_turn arc_6_turn
   = setupper (setlower (setsorttype anglerange_default (sortby arc_5_turn)) (angle_of 6))
       (angle_of (2 * M_PI))"
proof -
  have r: "\<not> getval (lowerborder arc_5_turn) > getval (upperborder arc_5_turn)"
    "\<not> getval (lowerborder arc_6_turn) > getval (upperborder arc_6_turn)"
    using six_below_turn by (simp_all add: stored_arc_simps)
  show ?thesis
    using six_below_turn
    by (simp add: overlap_rr [OF stored_arc_simps(1,2,4,5) r] stored_arc_simps Let_def)
qed

lemma zero_outside_5_6_turn:
  "\<not> isinside arc_5_turn \<lparr>getval = 0\<rparr>" "\<not> isinside arc_6_turn \<lparr>getval = 0\<rparr>"
  using six_below_turn
  by (simp_all add: isinside_plain stored_arc_simps)

text \<open>
  C3. The claim fails on the code. With \<open>A\<close> and \<open>B\<close> the arcs
  \<^verbatim>\<open>anglerange(angleclass(5.0), angleclass(-1e-17))\<close> and
  \<^verbatim>\<open>anglerange(angleclass(6.0), angleclass(-1e-17))\<close>, whose upper bounds hold
  \<open>2.0*M_PI\<close>, \<open>A.combine(B)\<close> is non-empty with bounds 5 and 0: the upper bound
  passes through the converting constructor, which turns \<open>2.0*M_PI\<close> into 0. The
  result contains the angle 0, which is inside neither \<open>A\<close> nor \<open>B\<close>.
\<close>

theorem combine_exceeds_union:
  "\<not> isempty (combine arc_5_turn arc_6_turn)
   \<and> getval (lowerborder (combine arc_5_turn arc_6_turn)) = 5
   \<and> getval (upperborder (combine arc_5_turn arc_6_turn)) = 0
   \<and> isinside (combine arc_5_turn arc_6_turn) \<lparr>getval = 0\<rparr>
   \<and> \<not> isinside arc_5_turn \<lparr>getval = 0\<rparr>
   \<and> \<not> isinside arc_6_turn \<lparr>getval = 0\<rparr>"
  using zero_outside_5_6_turn
  by (simp add: combine_5_6_turn setter_simps isinside_simps getval_small getval_angle_of_turn)

theorem combine_exceeds_union_witness:
  "isinside (combine arc_5_turn arc_6_turn) \<lparr>getval = 0\<rparr>"
  using combine_exceeds_union by blast

text \<open>
  C6. The claim fails on the code. For the same two arcs \<open>A.overlap(B)\<close> has
  bounds 6 and 0, again because \<open>2.0*M_PI\<close> is normalised to 0 on the way into
  the result; it contains the angle 0, which is inside neither operand.
\<close>

theorem overlap_exceeds_operands:
  "getval (lowerborder (overlap arc_5_turn arc_6_turn)) = 6
   \<and> getval (upperborder (overlap arc_5_turn arc_6_turn)) = 0
   \<and> isinside (overlap arc_5_turn arc_6_turn) \<lparr>getval = 0\<rparr>
   \<and> \<not> isinside arc_5_turn \<lparr>getval = 0\<rparr>
   \<and> \<not> isinside arc_6_turn \<lparr>getval = 0\<rparr>"
  using zero_outside_5_6_turn
  by (simp add: overlap_5_6_turn setter_simps isinside_simps getval_small getval_angle_of_turn)

theorem overlap_exceeds_operands_witness:
  "isinside (overlap arc_5_turn arc_6_turn) \<lparr>getval = 0\<rparr>"
  using overlap_exceeds_operands by blast

section \<open>The merge pass\<close>


declare combine_inner.simps [simp del]

lemma erase_append_Cons:
  "erase (pre @ x # ts) (Suc (length pre + k)) = pre @ x # take k ts @ drop (Suc k) ts"
  by (simp add: erase_def)

lemma combine_inner_absorb:
  assumes "k \<le> length ts"
  shows "combine_inner (length pre) (length pre + k) (pre @ x # ts) =
         (case absorb x (rev (take k ts)) of (x', r) \<Rightarrow> pre @ x' # rev r @ drop k ts)"
  using assms
proof (induction k arbitrary: x ts)
  case 0
  show ?case by (simp add: combine_inner.simps)
next
  case (Suc k)
  then have k: "k < length ts" by simp
  have tk: "take (Suc k) ts = take k ts @ [ts ! k]"
    using k by (simp add: take_Suc_conv_app_nth)
  have dk: "drop k ts = ts ! k # drop (Suc k) ts"
    using k by (simp add: Cons_nth_drop_Suc)
  let ?s = "pre @ x # ts"
  let ?ts' = "take k ts @ drop (Suc k) ts"
  have cmp: "?s ! Suc (length pre + k) = ts ! k" by (simp add: nth_append)
  have unfold: "combine_inner (length pre) (length pre + Suc k) ?s =
      (if \<not> isempty (combine x (ts ! k))
       then combine_inner (length pre) (length pre + k) (pre @ combine x (ts ! k) # ?ts')
       else combine_inner (length pre) (length pre + k) ?s)"
    by (subst combine_inner.simps) (simp add: cmp Let_def erase_append_Cons)
  show ?case
  proof (cases "isempty (combine x (ts ! k))")
    case True
    have "combine_inner (length pre) (length pre + Suc k) ?s
          = combine_inner (length pre) (length pre + k) ?s"
      using True unfold by simp
    also have "\<dots> = (case absorb x (rev (take k ts)) of (x', r) \<Rightarrow> pre @ x' # rev r @ drop k ts)"
      using Suc.IH [of ts x] k by simp
    finally show ?thesis
      using True by (simp add: tk dk split: prod.splits)
  next
    case False
    have "combine_inner (length pre) (length pre + Suc k) ?s
          = combine_inner (length pre) (length pre + k) (pre @ combine x (ts ! k) # ?ts')"
      using False unfold by simp
    also have "\<dots> = (case absorb (combine x (ts ! k)) (rev (take k ?ts')) of
                        (x', r) \<Rightarrow> pre @ x' # rev r @ drop k ?ts')"
      using Suc.IH [of ?ts' "combine x (ts ! k)"] k by simp
    finally show ?thesis
      using False k by (simp add: tk split: prod.splits)
  qed
qed

lemma combine_inner_round:
  "combine_inner (length pre) (length (pre @ x # t) - 1) (pre @ x # t) = pre @ combine_round x t"
  using combine_inner_absorb [of "length t" t pre x]
  by (simp add: combine_round_def split: prod.splits)

lemma length_combine_round: "length (combine_round x t) \<ge> 1"
  by (simp add: combine_round_def split: prod.splits)

lemma combine_outer_foldr:
  "combine_outer (length pre) (pre @ t) = foldr combine_round pre t"
proof (induction pre arbitrary: t rule: rev_induct)
  case Nil
  show ?case by simp
next
  case (snoc x pre)
  have "combine_outer (length (pre @ [x])) ((pre @ [x]) @ t)
        = combine_outer (length pre) (combine_inner (length pre) (length (pre @ x # t) - 1) (pre @ x # t))"
    by simp
  also have "\<dots> = combine_outer (length pre) (pre @ combine_round x t)"
    by (simp only: combine_inner_round)
  also have "\<dots> = foldr combine_round pre (combine_round x t)"
    by (rule snoc.IH)
  finally show ?case by simp
qed

lemma combine_round_Nil: "combine_round x [] = [x]"
  by (simp add: combine_round_def)

lemma combine_pass_foldr: "combine_pass s = foldr combine_round s []"
proof (cases "length s \<ge> 2")
  case True
  then have "s \<noteq> []" by auto
  then have s: "s = butlast s @ [last s]" "length (butlast s) = length s - 1"
    by simp_all
  have "combine_pass s = combine_outer (length (butlast s)) (butlast s @ [last s])"
    using True s by (simp add: combine_pass_def)
  also have "\<dots> = foldr combine_round (butlast s) [last s]"
    by (rule combine_outer_foldr)
  also have "\<dots> = foldr combine_round (butlast s @ [last s]) []"
    by (simp add: combine_round_Nil)
  finally show ?thesis using s(1) by simp
next
  case False
  then consider "s = []" | x where "s = [x]"
    by (cases s; cases "tl s") auto
  then show ?thesis
    by cases (simp_all add: combine_pass_def combine_round_Nil)
qed

lemma arcs_disjoint_sym: "arcs_disjoint a b = arcs_disjoint b a"
  by (auto simp: arcs_disjoint_def)

lemma combine_empty_iff_disjoint: "isempty (combine a b) = arcs_disjoint a b"
  by (simp add: combine_disjoint_iff arcs_disjoint_def)

lemma arcs_disjoint_combine:
  assumes "bounds_in_turn x" "bounds_in_turn y" "\<not> isempty (combine x y)"
    and "arcs_disjoint x z" "arcs_disjoint y z"
  shows "arcs_disjoint (combine x y) z"
  using assms(4,5) combine_member [OF assms(1-3)]
  unfolding arcs_disjoint_def by blast

lemma absorb_invariant:
  assumes "bounds_in_turn x" and "\<forall>y \<in> set ys. bounds_in_turn y"
    and "sorted_wrt arcs_disjoint ys"
    and "absorb x ys = (x', r)"
  shows "bounds_in_turn x' \<and> set r \<subseteq> set ys \<and> sorted_wrt arcs_disjoint r
         \<and> (\<forall>y \<in> set r. arcs_disjoint x' y)
         \<and> (\<forall>z. arcs_disjoint x z \<and> (\<forall>y \<in> set ys. arcs_disjoint y z) \<longrightarrow> arcs_disjoint x' z)"
  using assms
proof (induction ys arbitrary: x x' r)
  case Nil
  then show ?case by simp
next
  case (Cons y ys)
  have vy: "bounds_in_turn y" and vys: "\<forall>y \<in> set ys. bounds_in_turn y"
    using Cons.prems(2) by simp_all
  have dy: "\<forall>y' \<in> set ys. arcs_disjoint y y'" and sys: "sorted_wrt arcs_disjoint ys"
    using Cons.prems(3) by simp_all
  show ?case
  proof (cases "isempty (combine x y)")
    case False
    then have a: "absorb (combine x y) ys = (x', r)"
      using Cons.prems(4) by (simp add: Let_def)
    have vc: "bounds_in_turn (combine x y)"
      using Cons.prems(1) vy by (rule bounds_in_turn_combine)
    note ih = Cons.IH [OF vc vys sys a]
    have "arcs_disjoint x' z"
      if z: "arcs_disjoint x z \<and> (\<forall>y' \<in> set (y # ys). arcs_disjoint y' z)" for z
    proof -
      have "arcs_disjoint (combine x y) z"
        using arcs_disjoint_combine [OF Cons.prems(1) vy False] z by simp
      with ih z show ?thesis by simp
    qed
    with ih show ?thesis by auto
  next
    case True
    obtain x1 r1 where a: "absorb x ys = (x1, r1)" by (cases "absorb x ys")
    with True Cons.prems(4) have eq: "x' = x1" "r = y # r1"
      by (simp_all add: Let_def)
    note ih = Cons.IH [OF Cons.prems(1) vys sys a]
    have xy: "arcs_disjoint x y"
      using True by (simp add: combine_empty_iff_disjoint)
    have "\<forall>y' \<in> set ys. arcs_disjoint y' y"
      using dy arcs_disjoint_sym by blast
    with ih xy have x1y: "arcs_disjoint x1 y" by blast
    have "\<forall>y' \<in> set r1. arcs_disjoint y y'"
      using ih dy by blast
    with ih x1y show ?thesis
      unfolding eq by auto
  qed
qed

lemma sorted_wrt_disjoint_rev:
  "sorted_wrt arcs_disjoint (rev xs) = sorted_wrt arcs_disjoint xs"
proof -
  have "(\<lambda>x y. arcs_disjoint y x) = arcs_disjoint"
    by (intro ext) (rule arcs_disjoint_sym)
  then show ?thesis by (simp add: sorted_wrt_rev)
qed

lemma combine_round_invariant:
  assumes "bounds_in_turn x" and "\<forall>y \<in> set t. bounds_in_turn y" and "sorted_wrt arcs_disjoint t"
  shows "(\<forall>y \<in> set (combine_round x t). bounds_in_turn y)
         \<and> sorted_wrt arcs_disjoint (combine_round x t)"
proof -
  obtain x' r where a: "absorb x (rev t) = (x', r)" by (cases "absorb x (rev t)")
  have "bounds_in_turn x' \<and> set r \<subseteq> set (rev t) \<and> sorted_wrt arcs_disjoint r
         \<and> (\<forall>y \<in> set r. arcs_disjoint x' y)
         \<and> (\<forall>z. arcs_disjoint x z \<and> (\<forall>y \<in> set (rev t). arcs_disjoint y z) \<longrightarrow> arcs_disjoint x' z)"
    using assms a by (intro absorb_invariant) (simp_all add: sorted_wrt_disjoint_rev)
  then show ?thesis
    using assms(2) a by (auto simp: combine_round_def sorted_wrt_disjoint_rev)
qed

lemma foldr_round_invariant:
  assumes "\<forall>y \<in> set s. bounds_in_turn y"
  shows "(\<forall>y \<in> set (foldr combine_round s []). bounds_in_turn y)
         \<and> sorted_wrt arcs_disjoint (foldr combine_round s [])"
  using assms
proof (induction s)
  case Nil
  show ?case by simp
next
  case (Cons x s)
  then show ?case
    using combine_round_invariant [of x "foldr combine_round s []"] by simp
qed

lemma absorb_nothing:
  "\<forall>y \<in> set ys. arcs_disjoint x y \<Longrightarrow> absorb x ys = (x, ys)"
  by (induction ys) (simp_all add: combine_empty_iff_disjoint)

lemma foldr_round_fixed:
  "sorted_wrt arcs_disjoint s \<Longrightarrow> foldr combine_round s [] = s"
proof (induction s)
  case Nil
  show ?case by simp
next
  case (Cons x s)
  then have "foldr combine_round s [] = s" and d: "\<forall>y \<in> set s. arcs_disjoint x y"
    by simp_all
  moreover have "combine_round x s = x # s"
    using d by (simp add: combine_round_def absorb_nothing)
  ultimately show ?case by simp
qed

lemma no_pair_combines_iff: "no_pair_combines s = sorted_wrt arcs_disjoint s"
proof
  assume n: "no_pair_combines s"
  show "sorted_wrt arcs_disjoint s"
    unfolding sorted_wrt_iff_nth_less
  proof (intro allI impI)
    fix i j
    assume "i < j" "j < length s"
    then show "arcs_disjoint (s ! i) (s ! j)"
      using n by (simp add: no_pair_combines_def combine_empty_iff_disjoint)
  qed
next
  assume d: "sorted_wrt arcs_disjoint s"
  show "no_pair_combines s"
    unfolding no_pair_combines_def
  proof (intro allI impI)
    fix i j
    assume ij: "i < length s" "j < length s" "i \<noteq> j"
    then consider "i < j" | "j < i" by linarith
    then have "arcs_disjoint (s ! i) (s ! j)"
    proof cases
      case 1
      with d ij show ?thesis by (simp add: sorted_wrt_iff_nth_less)
    next
      case 2
      with d ij have "arcs_disjoint (s ! j) (s ! i)" by (simp add: sorted_wrt_iff_nth_less)
      then show ?thesis by (simp add: arcs_disjoint_sym)
    qed
    then show "isempty (combine (s ! i) (s ! j))"
      by (simp add: combine_empty_iff_disjoint)
  qed
qed

lemma combine_pass_disjoint:
  assumes "\<forall>y \<in> set s. bounds_in_turn y"
  shows "no_pair_combines (combine_pass s)" and "\<forall>y \<in> set (combine_pass s). bounds_in_turn y"
  using foldr_round_invariant [OF assms]
  by (simp_all add: no_pair_combines_iff combine_pass_foldr)

lemma combine_pass_fixed: "no_pair_combines s \<Longrightarrow> combine_pass s = s"
  by (simp add: no_pair_combines_iff combine_pass_foldr foldr_round_fixed)



lemma storage_angleset_combine: "storage (angleset_combine st) = combine_pass (storage st)"
  by (simp add: angleset_combine_def)

text \<open>
  For sets whose arcs have bounds in \<open>[0, 2.0*M_PI)\<close>: after adding a whole set
  or a non-empty arc, no two different stored arcs combine, no two share an
  angle, and a second merge pass leaves the set as the first one left it.
\<close>

lemma merge_pass_in_turn:
  assumes st: "\<forall>r \<in> set (storage st). bounds_in_turn r"
    and other: "\<forall>r \<in> set (storage other). bounds_in_turn r"
    and v: "bounds_in_turn v" "\<not> isempty v"
  shows "no_pair_combines (storage (add_set st other))"
    and "sorted_wrt arcs_disjoint (storage (add_set st other))"
    and "no_pair_combines (storage (add_range st v))"
    and "sorted_wrt arcs_disjoint (storage (add_range st v))"
    and "angleset_combine (angleset_combine st) = angleset_combine st"
proof -
  show 1: "no_pair_combines (storage (add_set st other))"
    using st other
    by (auto simp: add_set_def storage_angleset_combine intro!: combine_pass_disjoint)
  have "\<forall>r \<in> set (storage st @ [setsorttype v SRT_LOWER]). bounds_in_turn r"
    using st v by (simp add: turn_simps)
  then show 2: "no_pair_combines (storage (add_range st v))"
    using v(2) by (simp add: add_range_def storage_angleset_combine combine_pass_disjoint)
  show "sorted_wrt arcs_disjoint (storage (add_set st other))"
    using 1 by (simp add: no_pair_combines_iff)
  show "sorted_wrt arcs_disjoint (storage (add_range st v))"
    using 2 by (simp add: no_pair_combines_iff)
  have "combine_pass (combine_pass (storage st)) = combine_pass (storage st)"
    using st by (intro combine_pass_fixed combine_pass_disjoint)
  then show "angleset_combine (angleset_combine st) = angleset_combine st"
    by (simp add: angleset_combine_def)
qed

lemma combine_turn_0_1:
  "isempty (combine (setsorttype arc_5_turn SRT_LOWER) (setsorttype arc_0_1 SRT_LOWER))"
  "isempty (combine (setsorttype arc_6_turn SRT_LOWER) (setsorttype arc_0_1 SRT_LOWER))"
proof -
  have d: "\<not> (isinside (setsorttype arc_5_turn SRT_LOWER) v
              \<and> isinside (setsorttype arc_0_1 SRT_LOWER) v)"
    "\<not> (isinside (setsorttype arc_6_turn SRT_LOWER) v
              \<and> isinside (setsorttype arc_0_1 SRT_LOWER) v)" for v
    using six_below_turn
    by (auto simp: isinside_simps isinside_plain stored_arc_simps)
  show "isempty (combine (setsorttype arc_5_turn SRT_LOWER) (setsorttype arc_0_1 SRT_LOWER))"
    "isempty (combine (setsorttype arc_6_turn SRT_LOWER) (setsorttype arc_0_1 SRT_LOWER))"
    using d by (simp_all add: combine_disjoint_iff)
qed

lemma combine_stored_5_6_turn:
  "combine (setsorttype arc_5_turn SRT_LOWER) (setsorttype arc_6_turn SRT_LOWER)
   = setsorttype (anglerange_of (angle_of 5) (angle_of (2 * M_PI))) SRT_LOWER"
proof -
  let ?A = "setsorttype arc_5_turn SRT_LOWER"
  let ?B = "setsorttype arc_6_turn SRT_LOWER"
  have ne: "\<not> isempty ?A" "\<not> isempty ?B" and nf: "\<not> fullcircle ?A" "\<not> fullcircle ?B"
    by (simp_all add: setter_simps stored_arc_simps)
  have r: "\<not> getval (lowerborder ?A) > getval (upperborder ?A)"
    "\<not> getval (lowerborder ?B) > getval (upperborder ?B)"
    using six_below_turn by (simp_all add: setter_simps stored_arc_simps)
  show ?thesis
    unfolding combine_rr [OF ne nf r]
    using six_below_turn
    by (simp add: Let_def setupper_def setlower_def setsorttype_def anglerange_default_def
        anglerange_of_def arc_5_turn_def arc_6_turn_def)
qed

lemma storage_add_turn_sets:
  "storage (add_set set_5_turn set_6_turn_0_1)
   = [setsorttype (anglerange_of (angle_of 5) (angle_of (2 * M_PI))) SRT_LOWER,
      setsorttype arc_0_1 SRT_LOWER]"
proof -
  have n: "\<not> isempty (setsorttype (anglerange_of (angle_of 5) (angle_of (2 * M_PI))) SRT_LOWER)"
    by (simp add: isempty_def setsorttype_def anglerange_of_def)
  show ?thesis
    using n
    by (simp add: add_set_def storage_angleset_combine set_5_turn_def set_6_turn_0_1_def
        combine_pass_foldr combine_round_def combine_turn_0_1 combine_stored_5_6_turn Let_def)
qed

lemma combine_merged_0_1:
  "combine (setsorttype (anglerange_of (angle_of 5) (angle_of (2 * M_PI))) SRT_LOWER)
           (setsorttype arc_0_1 SRT_LOWER)
   = setsorttype (anglerange_of (angle_of 5) \<lparr>getval = 1\<rparr>) SRT_LOWER"
proof -
  let ?R = "setsorttype (anglerange_of (angle_of 5) (angle_of (2 * M_PI))) SRT_LOWER"
  let ?C = "setsorttype arc_0_1 SRT_LOWER"
  have f: "getval (lowerborder ?R) = 5" "getval (upperborder ?R) = 0"
    by (simp_all add: setsorttype_def anglerange_of_def getval_small getval_angle_of_turn)
  have g: "getval (lowerborder ?C) = 0" "getval (upperborder ?C) = 1"
    by (simp_all add: setsorttype_def anglerange_of_def arc_0_1_def)
  have ne: "\<not> isempty ?R" "\<not> isempty ?C" and nf: "\<not> fullcircle ?R" "\<not> fullcircle ?C"
    by (simp_all add: isempty_def setsorttype_def anglerange_of_def arc_0_1_def)
  have w: "getval (lowerborder ?R) > getval (upperborder ?R)"
    "\<not> getval (lowerborder ?C) > getval (upperborder ?C)"
    unfolding f g by simp_all
  show ?thesis
    unfolding combine_wr [OF ne nf w] f g
    by (simp add: Let_def setupper_def setlower_def setsorttype_def anglerange_default_def
        anglerange_of_def arc_0_1_def)
qed

text \<open>
  C1. The claim fails on the code. The set \<open>{[5, 2.0*M_PI]}\<close> receives the set
  \<open>{[6, 2.0*M_PI], [0, 1]}\<close> through \<^verbatim>\<open>add(const angleset&)\<close>. The merge pass
  combines the first two arcs into the arc with bounds 5 and 0 (the upper bound
  \<open>2.0*M_PI\<close> is normalised to 0 on the way into the result) and does not
  compare it with \<open>[0, 1]\<close> again. The two stored arcs share the angle 0, their
  \<open>combine\<close> is the non-empty arc with bounds 5 and 1, and a second merge pass
  changes the storage.
\<close>

theorem merge_pass_leaves_overlap:
  "length (storage (add_set set_5_turn set_6_turn_0_1)) = 2
   \<and> getval (lowerborder (storage (add_set set_5_turn set_6_turn_0_1) ! 0)) = 5
   \<and> getval (upperborder (storage (add_set set_5_turn set_6_turn_0_1) ! 0)) = 0
   \<and> storage (add_set set_5_turn set_6_turn_0_1) ! 1 = setsorttype arc_0_1 SRT_LOWER
   \<and> isinside (storage (add_set set_5_turn set_6_turn_0_1) ! 0) \<lparr>getval = 0\<rparr>
   \<and> isinside (storage (add_set set_5_turn set_6_turn_0_1) ! 1) \<lparr>getval = 0\<rparr>
   \<and> \<not> isempty (combine (storage (add_set set_5_turn set_6_turn_0_1) ! 0)
                         (storage (add_set set_5_turn set_6_turn_0_1) ! 1))
   \<and> \<not> no_pair_combines (storage (add_set set_5_turn set_6_turn_0_1))
   \<and> length (storage (angleset_combine (add_set set_5_turn set_6_turn_0_1))) = 1"
proof -
  let ?s = "storage (add_set set_5_turn set_6_turn_0_1)"
  let ?R = "setsorttype (anglerange_of (angle_of 5) (angle_of (2 * M_PI))) SRT_LOWER"
  let ?C = "setsorttype arc_0_1 SRT_LOWER"
  have s: "?s = [?R, ?C]" by (rule storage_add_turn_sets)
  have b: "getval (lowerborder ?R) = 5" "getval (upperborder ?R) = 0"
    by (simp_all add: setsorttype_def anglerange_of_def getval_small getval_angle_of_turn)
  have i: "isinside ?R \<lparr>getval = 0\<rparr>" "isinside ?C \<lparr>getval = 0\<rparr>"
    by (simp_all add: isinside_def isempty_def setsorttype_def anglerange_of_def arc_0_1_def
        cmp_defs getval_small getval_angle_of_turn)
  have c: "\<not> isempty (combine ?R ?C)"
    unfolding combine_merged_0_1 by (simp add: isempty_def setsorttype_def anglerange_of_def)
  have n: "\<not> no_pair_combines ?s"
  proof
    assume "no_pair_combines ?s"
    then have "\<forall>i < length ?s. \<forall>j < length ?s. i \<noteq> j
        \<longrightarrow> isempty (combine (?s ! i) (?s ! j))"
      by (simp only: no_pair_combines_def)
    then have "0 < length ?s \<longrightarrow> 1 < length ?s \<longrightarrow> (0::nat) \<noteq> 1
        \<longrightarrow> isempty (combine (?s ! 0) (?s ! 1))"
      by blast
    then have "isempty (combine ?R ?C)" by (simp add: s)
    with c show False by simp
  qed
  have p: "length (storage (angleset_combine (add_set set_5_turn set_6_turn_0_1))) = 1"
    using c
    by (simp add: storage_angleset_combine s combine_pass_foldr combine_round_def Let_def)
  show ?thesis using b i c n p by (simp add: s)
qed

theorem merge_pass_leaves_overlap_witness:
  "length (storage (add_set set_5_turn set_6_turn_0_1)) = 2
   \<and> length (storage (angleset_combine (add_set set_5_turn set_6_turn_0_1))) = 1"
  using merge_pass_leaves_overlap by blast

section \<open>A cascade of merges\<close>


lemma deg_range: "0 \<le> d \<Longrightarrow> d \<le> 180 \<Longrightarrow> 0 \<le> deg d \<and> deg d < 2 * M_PI"
proof -
  assume d: "0 \<le> d" "d \<le> 180"
  have "d * pi \<le> 180 * pi" using d by (intro mult_right_mono) auto
  then have "deg d \<le> pi" by (simp add: deg_def)
  moreover have "0 \<le> deg d" using d by (simp add: deg_def)
  ultimately show ?thesis using pi_less_4 six_below_turn by linarith
qed

lemma getval_angle_of_deg: "0 \<le> d \<Longrightarrow> d \<le> 180 \<Longrightarrow> getval (angle_of (deg d)) = deg d"
  using deg_range [of d] by (simp add: getval_angle_of)

lemma deg_le_iff: "(deg a \<le> deg b) = (a \<le> b)"
  by (simp add: deg_def field_simps)

lemma deg_min: "min (deg a) (deg b) = deg (min a b)"
  by (simp add: min_def deg_le_iff)

lemma deg_max: "max (deg a) (deg b) = deg (max a b)"
  by (simp add: max_def deg_le_iff)

lemma combine_deg_regular:
  assumes "0 \<le> a" "a \<le> b" "b \<le> 180" "0 \<le> c" "c \<le> d" "d \<le> 180"
  shows "combine (setsorttype (anglerange_of (angle_of (deg a)) (angle_of (deg b))) SRT_LOWER)
                 (setsorttype (anglerange_of (angle_of (deg c)) (angle_of (deg d))) SRT_LOWER)
         = (if min d b \<ge> max c a
            then setsorttype (anglerange_of (angle_of (deg (min c a))) (angle_of (deg (max d b))))
                   SRT_LOWER
            else setsorttype anglerange_default SRT_LOWER)"
proof -
  let ?A = "setsorttype (anglerange_of (angle_of (deg a)) (angle_of (deg b))) SRT_LOWER"
  let ?B = "setsorttype (anglerange_of (angle_of (deg c)) (angle_of (deg d))) SRT_LOWER"
  have g: "getval (angle_of (deg a)) = deg a" "getval (angle_of (deg b)) = deg b"
    "getval (angle_of (deg c)) = deg c" "getval (angle_of (deg d)) = deg d"
    using assms by (simp_all add: getval_angle_of_deg)
  have f: "lowerborder ?A = angle_of (deg a)" "upperborder ?A = angle_of (deg b)"
    "lowerborder ?B = angle_of (deg c)" "upperborder ?B = angle_of (deg d)"
    "sortby ?A = SRT_LOWER"
    by (simp_all add: setsorttype_def anglerange_of_def)
  have ne: "\<not> isempty ?A" "\<not> isempty ?B" and nf: "\<not> fullcircle ?A" "\<not> fullcircle ?B"
    by (simp_all add: isempty_def setsorttype_def anglerange_of_def)
  have r: "\<not> getval (lowerborder ?A) > getval (upperborder ?A)"
    "\<not> getval (lowerborder ?B) > getval (upperborder ?B)"
    using assms by (simp_all add: f g deg_le_iff not_less)
  show ?thesis
    unfolding combine_rr [OF ne nf r] f g deg_min deg_max deg_le_iff Let_def
    by (simp add: setupper_def setlower_def setsorttype_def anglerange_default_def
        anglerange_of_def)
qed

lemma isempty_examples:
  "\<not> isempty (setsorttype (anglerange_of l u) s)"
  "\<not> isempty (anglerange_of l u)"
  "isempty (setsorttype anglerange_default s)"
  by (simp_all add: isempty_def setsorttype_def anglerange_of_def anglerange_default_def)

text \<open>
  C5. Inserting the arc [0 deg,10 deg] and then the arc [20 deg,30 deg] into an empty set
  leaves two stored arcs; inserting [10 deg,20 deg] after that leaves exactly one arc,
  with bounds [0 deg,30 deg].
\<close>

theorem cascade_merge_example:
  "length (storage (add_range
             (add_range angleset_empty (anglerange_of (angle_of (deg 0)) (angle_of (deg 10))))
             (anglerange_of (angle_of (deg 20)) (angle_of (deg 30))))) = 2
   \<and> storage (add_range
        (add_range
           (add_range angleset_empty (anglerange_of (angle_of (deg 0)) (angle_of (deg 10))))
           (anglerange_of (angle_of (deg 20)) (angle_of (deg 30))))
        (anglerange_of (angle_of (deg 10)) (angle_of (deg 20))))
     = [setsorttype (anglerange_of (angle_of (deg 0)) (angle_of (deg 30))) SRT_LOWER]"
proof -
  let ?A = "setsorttype (anglerange_of (angle_of (deg 0)) (angle_of (deg 10))) SRT_LOWER"
  let ?B = "setsorttype (anglerange_of (angle_of (deg 20)) (angle_of (deg 30))) SRT_LOWER"
  let ?C = "setsorttype (anglerange_of (angle_of (deg 10)) (angle_of (deg 20))) SRT_LOWER"
  let ?BC = "setsorttype (anglerange_of (angle_of (deg 10)) (angle_of (deg 30))) SRT_LOWER"
  let ?ABC = "setsorttype (anglerange_of (angle_of (deg 0)) (angle_of (deg 30))) SRT_LOWER"
  have ab: "combine ?A ?B = setsorttype anglerange_default SRT_LOWER"
    by (simp add: combine_deg_regular)
  have bc: "combine ?B ?C = ?BC"
    by (simp add: combine_deg_regular)
  have abc: "combine ?A ?BC = ?ABC"
    by (simp add: combine_deg_regular)
  have s1: "storage (add_range angleset_empty (anglerange_of (angle_of (deg 0)) (angle_of (deg 10))))
            = [?A]"
    by (simp add: add_range_def isempty_examples storage_angleset_combine angleset_empty_def
        combine_pass_def)
  have s2: "storage (add_range
             (add_range angleset_empty (anglerange_of (angle_of (deg 0)) (angle_of (deg 10))))
             (anglerange_of (angle_of (deg 20)) (angle_of (deg 30)))) = [?A, ?B]"
    by (simp add: add_range_def [of _ "anglerange_of (angle_of (deg 20)) (angle_of (deg 30))"]
        isempty_examples storage_angleset_combine s1 combine_pass_foldr combine_round_def
        ab Let_def)
  have s3: "storage (add_range
        (add_range
           (add_range angleset_empty (anglerange_of (angle_of (deg 0)) (angle_of (deg 10))))
           (anglerange_of (angle_of (deg 20)) (angle_of (deg 30))))
        (anglerange_of (angle_of (deg 10)) (angle_of (deg 20)))) = [?ABC]"
    by (simp add: add_range_def [of _ "anglerange_of (angle_of (deg 10)) (angle_of (deg 20))"]
        isempty_examples storage_angleset_combine s2 combine_pass_foldr combine_round_def
        bc abc Let_def)
  show ?thesis using s2 s3 by simp
qed

theorem cascade_merge_example_witness:
  "length (storage (add_range
             (add_range angleset_empty (anglerange_of (angle_of (deg 0)) (angle_of (deg 10))))
             (anglerange_of (angle_of (deg 20)) (angle_of (deg 30))))) = 2
   \<and> length (storage (add_range
        (add_range
           (add_range angleset_empty (anglerange_of (angle_of (deg 0)) (angle_of (deg 10))))
           (anglerange_of (angle_of (deg 20)) (angle_of (deg 30))))
        (anglerange_of (angle_of (deg 10)) (angle_of (deg 20))))) = 1"
  using cascade_merge_example by simp

end
